theory Spec2Isabelle
  imports Main "HOL-Library.Sublist"
begin

section \<open>The Amazon S3 reader (lib/input/reader/amazon_s3.go)\<close>

subsection \<open>Errors\<close>

text \<open>
  The typed errors of package \<open>types\<close> that the reader returns, an opaque error that an
  SDK or library call handed back (\<open>ErrExternal\<close>, with its text), and \<open>fmt.Errorf\<close>
  with its format string and arguments left unrendered.
\<close>

datatype error =
    ErrNotConnected
  | ErrTimeout
  | ErrTypeClosed
  | ErrExternal string
  | Errorf string "fmtarg list"
and fmtarg =
    ArgStr string
  | ArgInt int
  | ArgErr error

subsection \<open>Configuration and reader state\<close>

text \<open>
  \<open>AmazonS3Config\<close>. The embedded \<open>sess.Config\<close> is only handed to \<open>GetSession\<close>, whose
  outcome is a parameter of the model (see \<open>env\<close>), so it has no field here.
  \<open>DownloadManager.Enabled\<close> is the field \<open>DownloadManagerEnabled\<close>. Go's \<open>int\<close> fields are
  \<open>int\<close>: the code only compares them and decrements \<open>attempts\<close> by one.
\<close>

record AmazonS3Config =
  Bucket :: string
  Prefix :: string
  Retries :: int
  DownloadManagerEnabled :: bool
  DeleteObjects :: bool
  SQSURL :: string
  SQSBodyPath :: string
  SQSBucketPath :: string
  SQSEnvelopePath :: string
  SQSMaxMessages :: int
  MaxBatchCount :: int
  Timeout :: string

text \<open>
  \<open>sqs.DeleteMessageBatchRequestEntry\<close>: both fields are \<open>*string\<close> copied from the
  received SQS message.
\<close>

record sqs_entry =
  Id :: "string option"
  ReceiptHandle :: "string option"

text \<open>\<open>objKey\<close>; the pointer \<open>sqsHandle\<close> is \<open>None\<close> when nil.\<close>

record objKey =
  s3Key :: string
  s3Bucket :: string
  attempts :: int
  sqsHandle :: "sqs_entry option"

text \<open>
  The AWS session and the three clients built from it. A nil pointer is \<open>None\<close>.
\<close>

datatype aws_session = Session nat
datatype s3_client = S3New aws_session
datatype s3_downloader = NewDownloader aws_session
datatype sqs_client = SQSNew aws_session

text \<open>The two functions that \<open>readMethod\<close> can hold.\<close>

datatype read_method = ReadFromMgr | ReadDirect

text \<open>
  The struct \<open>AmazonS3\<close> without its logger and metrics: log lines are not modelled.
  \<open>timeout\<close> is a \<open>time.Duration\<close> in nanoseconds.
\<close>

record AmazonS3 =
  conf :: AmazonS3Config
  sqsBodyPath :: "string list"
  sqsEnvPath :: "string list"
  sqsBucketPath :: "string list"
  readKeys :: "objKey list"
  targetKeys :: "objKey list"
  readMethod :: read_method
  session :: "aws_session option"
  s3 :: "s3_client option"
  downloader :: "s3_downloader option"
  sqs :: "sqs_client option"
  timeout :: int

subsection \<open>Messages\<close>

text \<open>
  A part is its payload and its metadata; a message is the list of its parts.
  The metadata of an S3 object arrives as a Go map, so the part's metadata is a map as well.
\<close>

record part =
  payload :: string
  metadata :: "string \<rightharpoonup> string"

type_synonym message = "part list"

subsection \<open>The outside world\<close>

text \<open>
  JSON values as \<open>encoding/json\<close> decodes them into \<open>interface{}\<close>. Numbers keep the text
  of their literal: this code never looks at them.
\<close>

datatype json =
    JNull
  | JBool bool
  | JNumber string
  | JString string
  | JArray "json list"
  | JObject "(string \<times> json) list"

text \<open>\<open>sqs.Message\<close>, the three fields the reader uses.\<close>

record sqs_message =
  MessageId :: "string option"
  ReceiptHandleM :: "string option"
  Body :: "string option"

text \<open>
  \<open>s3.GetObjectOutput\<close>: the outcome of \<open>ioutil.ReadAll\<close> on its body, the user metadata,
  \<open>LastModified\<close> (a time, in nanoseconds since the epoch) and \<open>ContentType\<close>.
\<close>

record s3_object =
  ObjBody :: "error + string"
  ObjMetadata :: "string \<rightharpoonup> string"
  LastModified :: "int option"
  ContentType :: "string option"

text \<open>
  Every request that leaves the process is appended to a log of calls, oldest first.
\<close>

datatype call =
    GetSessionCall
  | ListObjectsPagesCall string "string option"
  | ReceiveMessageCall string int int
  | DeleteMessageBatchCall string "sqs_entry list"
  | GetObjectCall string string
  | DownloadCall string string
  | DeleteObjectCall string string

text \<open>
  What the world answers is a parameter. Each answer is indexed by the number of calls
  made before it, so the world may answer every call differently. \<open>timeLeft n\<close> is the
  outcome of \<open>time.Until(timeoutAt) > 0\<close> when \<open>n\<close> calls have been made.
  \<open>listObjectsPages\<close> gives the keys of the pages delivered to the callback and the
  error the listing ends with, if any. The library functions the code calls
  (\<open>time.ParseDuration\<close>, \<open>gabs.ParseJSON\<close>, the path search \<open>Container.S\<close>,
  \<open>json.Unmarshal\<close> and the two time formats) are parameters too.
  The answers to \<open>DeleteObject\<close> and \<open>DeleteMessageBatch\<close> are only ever logged by the
  code, so they have no parameter.
\<close>

record env =
  getSession :: "nat \<Rightarrow> error + aws_session"
  listObjectsPages :: "nat \<Rightarrow> string list list \<times> error option"
  receiveMessage :: "nat \<Rightarrow> error + sqs_message list"
  getObject :: "nat \<Rightarrow> error + s3_object"
  download :: "nat \<Rightarrow> error + string"
  timeLeft :: "nat \<Rightarrow> bool"
  parseDuration :: "string \<Rightarrow> error + int"
  gabsParseJSON :: "string \<Rightarrow> error + json"
  gabsSearch :: "json \<Rightarrow> string list \<Rightarrow> json"
  jsonUnmarshal :: "string \<Rightarrow> error + json"
  formatRFC3339 :: "int \<Rightarrow> string"
  formatUnix :: "int \<Rightarrow> string"

subsection \<open>NewAmazonS3\<close>

text \<open>\<open>strings.Split(s, ".")\<close> for the one-character separator the constructor uses.\<close>

fun splitOn :: "char \<Rightarrow> string \<Rightarrow> string list" where
  "splitOn c [] = [[]]"
| "splitOn c (x # xs) =
     (if x = c then [] # splitOn c xs
      else (case splitOn c xs of
              [] \<Rightarrow> [[x]]
            | y # ys \<Rightarrow> (x # y) # ys))"

definition NewAmazonS3 :: "env \<Rightarrow> AmazonS3Config \<Rightarrow> error + AmazonS3" where
  "NewAmazonS3 e c =
     (let path = (if length (SQSBodyPath c) > 0 then splitOn (CHR ''.'') (SQSBodyPath c) else []);
          bucketPath = (if length (SQSBucketPath c) > 0 then splitOn (CHR ''.'') (SQSBucketPath c) else []);
          envPath = (if length (SQSEnvelopePath c) > 0 then splitOn (CHR ''.'') (SQSEnvelopePath c) else [])
      in case (if length (Timeout c) > 0 then parseDuration e (Timeout c) else Inr 0) of
           Inl err \<Rightarrow> Inl (Errorf ''failed to parse timeout string: %v'' [ArgErr err])
         | Inr tout \<Rightarrow>
             if MaxBatchCount c < 1
             then Inl (Errorf ''max_batch_count '%v' must be > 0'' [ArgInt (MaxBatchCount c)])
             else Inr \<lparr> conf = c,
                        sqsBodyPath = path,
                        sqsEnvPath = envPath,
                        sqsBucketPath = bucketPath,
                        readKeys = [],
                        targetKeys = [],
                        readMethod = (if DownloadManagerEnabled c then ReadFromMgr else ReadDirect),
                        session = None,
                        s3 = None,
                        downloader = None,
                        sqs = None,
                        timeout = tout \<rparr>)"

subsection \<open>Connect\<close>

text \<open>
  An operation takes the reader and the log of calls and returns its result with both
  updated. \<open>Connect\<close> returns the error, \<open>None\<close> for nil. When the listing fails, the keys
  of the pages already delivered stay appended to \<open>targetKeys\<close>, as the callback has run.
\<close>

definition Connect :: "env \<Rightarrow> AmazonS3 \<times> call list \<Rightarrow> error option \<times> AmazonS3 \<times> call list" where
  "Connect e st =
     (case st of (a, cs) \<Rightarrow>
        if session a \<noteq> None then (None, a, cs)
        else (case getSession e (length cs) of
                Inl err \<Rightarrow> (Some err, a, cs @ [GetSessionCall])
              | Inr sess \<Rightarrow>
                  let cs1 = cs @ [GetSessionCall];
                      sThree = S3New sess;
                      dler = NewDownloader sess
                  in if length (SQSURL (conf a)) = 0
                     then
                       (let listPrefix = (if length (Prefix (conf a)) > 0 then Some (Prefix (conf a)) else None);
                            cs2 = cs1 @ [ListObjectsPagesCall (Bucket (conf a)) listPrefix];
                            a1 = a\<lparr> targetKeys := targetKeys a @
                                       map (\<lambda>k. \<lparr> s3Key = k, s3Bucket = [],
                                                   attempts = Retries (conf a), sqsHandle = None \<rparr>)
                                           (concat (fst (listObjectsPages e (length cs1)))) \<rparr>
                        in case snd (listObjectsPages e (length cs1)) of
                             Some err \<Rightarrow> (Some (Errorf ''failed to list objects: %v'' [ArgErr err]), a1, cs2)
                           | None \<Rightarrow>
                               (None, a1\<lparr> session := Some sess, downloader := Some dler, s3 := Some sThree \<rparr>, cs2))
                     else
                       (None, a\<lparr> sqs := Some (SQSNew sess), session := Some sess,
                                  downloader := Some dler, s3 := Some sThree \<rparr>, cs1)))"

subsection \<open>Acknowledge\<close>

text \<open>
  A call through a nil client is a nil pointer dereference inside the SDK: the process
  panics and nothing is returned. \<open>Acknowledge\<close> and \<open>Read\<close> therefore return an option,
  \<open>None\<close> for the panic.

  The first loop of \<open>Acknowledge(nil)\<close>: one \<open>DeleteObject\<close> per read key when
  \<open>DeleteObjects\<close> is set, and the non-nil SQS handles collected in order.
\<close>

fun ackKeys :: "AmazonS3 \<Rightarrow> objKey list \<Rightarrow> sqs_entry list \<times> call list
                  \<Rightarrow> (sqs_entry list \<times> call list) option" where
  "ackKeys a [] acc = Some acc"
| "ackKeys a (k # ks) (deleteHandles, cs) =
     (let bucket = (if length (s3Bucket k) > 0 then s3Bucket k else Bucket (conf a));
          deleteHandles' = (case sqsHandle k of
                              Some h \<Rightarrow> deleteHandles @ [h]
                            | None \<Rightarrow> deleteHandles)
      in if DeleteObjects (conf a)
         then (case s3 a of
                 None \<Rightarrow> None
               | Some _ \<Rightarrow> ackKeys a ks (deleteHandles', cs @ [DeleteObjectCall bucket (s3Key k)]))
         else ackKeys a ks (deleteHandles', cs))"

text \<open>
  The loop \<open>for len(deleteHandles) > 0\<close>, which \<open>Acknowledge\<close> and \<open>readSQSEvents\<close> both
  have: the first ten entries (all of them when there are at most ten) go into one
  \<open>DeleteMessageBatch\<close>, the loop goes on with the rest.
\<close>

function deleteMessageBatches :: "AmazonS3 \<Rightarrow> sqs_entry list \<Rightarrow> call list \<Rightarrow> call list option" where
  "deleteMessageBatches a hs cs =
     (if length hs > 0
      then (let entries = (if length hs > 10 then take 10 hs else hs);
                rest = (if length hs > 10 then drop 10 hs else [])
            in case sqs a of
                 None \<Rightarrow> None
               | Some _ \<Rightarrow> deleteMessageBatches a rest (cs @ [DeleteMessageBatchCall (SQSURL (conf a)) entries]))
      else Some cs)"
  by pat_completeness auto
termination
  by (relation "measure (\<lambda>(a, hs, cs). length hs)") auto

definition Acknowledge :: "error option \<Rightarrow> AmazonS3 \<times> call list
                             \<Rightarrow> (error option \<times> AmazonS3 \<times> call list) option" where
  "Acknowledge err st =
     (case st of (a, cs) \<Rightarrow>
        (case err of
           None \<Rightarrow>
             (case ackKeys a (readKeys a) ([], cs) of
                None \<Rightarrow> None
              | Some (deleteHandles, cs1) \<Rightarrow>
                  (case deleteMessageBatches a deleteHandles cs1 of
                     None \<Rightarrow> None
                   | Some cs2 \<Rightarrow> Some (None, a\<lparr> readKeys := [] \<rparr>, cs2)))
         | Some _ \<Rightarrow>
             Some (None, a\<lparr> targetKeys := readKeys a @ targetKeys a, readKeys := [] \<rparr>, cs)))"

subsection \<open>readSQSEvents\<close>

fun digStrsFromSlices :: "json list \<Rightarrow> string list" where
  "digStrsFromSlices [] = []"
| "digStrsFromSlices (JArray t # vs) = digStrsFromSlices t @ digStrsFromSlices vs"
| "digStrsFromSlices (JString t # vs) = t # digStrsFromSlices vs"
| "digStrsFromSlices (_ # vs) = digStrsFromSlices vs"

text \<open>
  The body of \<open>messageLoop\<close> is split in three. \<open>openEnvelope\<close> is the block
  \<open>if len(a.sqsEnvPath) > 0\<close>: it gives the document to search, or \<open>None\<close> where the code
  appends the handle to \<open>dudMessageHandles\<close> and continues with the next message.
  \<open>gabs.Consume(docs)\<close> wraps the slice, which is the array \<open>JArray docs\<close>.
\<close>

definition openEnvelope :: "env \<Rightarrow> AmazonS3 \<Rightarrow> json \<Rightarrow> json option" where
  "openEnvelope e a gObj =
     (if length (sqsEnvPath a) > 0
      then (case gabsSearch e gObj (sqsEnvPath a) of
              JString t \<Rightarrow> (case gabsParseJSON e t of
                               Inl err \<Rightarrow> None
                             | Inr g \<Rightarrow> Some g)
            | JArray t \<Rightarrow>
                (let docs = List.map_filter
                              (\<lambda>v. case jsonUnmarshal e v of Inl err2 \<Rightarrow> None | Inr gObj2 \<Rightarrow> Some gObj2)
                              (digStrsFromSlices t)
                 in if length docs = 0 then None else Some (JArray docs))
            | _ \<Rightarrow> None)
      else Some gObj)"

text \<open>
  \<open>appendTargets\<close> is the rest of the body, from \<open>var buckets []string\<close> on: the two type
  switches on the bucket path and on the body path.
\<close>

definition appendTargets :: "env \<Rightarrow> json \<Rightarrow> sqs_entry \<Rightarrow> AmazonS3 \<times> sqs_entry list
                               \<Rightarrow> AmazonS3 \<times> sqs_entry list" where
  "appendTargets e gObj msgHandle st =
     (case st of (a, dudMessageHandles) \<Rightarrow>
        let buckets = (case gabsSearch e gObj (sqsBucketPath a) of
                         JString t \<Rightarrow> [t]
                       | JArray t \<Rightarrow> digStrsFromSlices t
                       | _ \<Rightarrow> [])
        in (case gabsSearch e gObj (sqsBodyPath a) of
             JString t \<Rightarrow>
               if prefix (Prefix (conf a)) t
               then (a\<lparr> targetKeys := targetKeys a @
                            [\<lparr> s3Key = t,
                               s3Bucket = (if length buckets > 0 then buckets ! 0 else []),
                               attempts = Retries (conf a),
                               sqsHandle = Some msgHandle \<rparr>] \<rparr>,
                     dudMessageHandles)
               else (a, dudMessageHandles)
           | JArray t \<Rightarrow>
               (let newTargets = filter (prefix (Prefix (conf a))) (digStrsFromSlices t)
                in if length newTargets = 0
                   then (a, dudMessageHandles @ [msgHandle])
                   else
                     (let tks = targetKeys a @
                                  map (\<lambda>(i, target).
                                         \<lparr> s3Key = target,
                                           s3Bucket = (if length buckets > i then buckets ! i else []),
                                           attempts = Retries (conf a),
                                           sqsHandle = None \<rparr>)
                                      (enumerate 0 newTargets)
                      in (a\<lparr> targetKeys := tks[length tks - 1 :=
                                                 (tks ! (length tks - 1))\<lparr> sqsHandle := Some msgHandle \<rparr>] \<rparr>,
                          dudMessageHandles)))
           | _ \<Rightarrow> (a, dudMessageHandles)))"

definition handleSQSMessage :: "env \<Rightarrow> sqs_message \<Rightarrow> AmazonS3 \<times> sqs_entry list
                                  \<Rightarrow> AmazonS3 \<times> sqs_entry list" where
  "handleSQSMessage e sqsMsg st =
     (case st of (a, dudMessageHandles) \<Rightarrow>
        let msgHandle = \<lparr> Id = MessageId sqsMsg, ReceiptHandle = ReceiptHandleM sqsMsg \<rparr>
        in (case Body sqsMsg of
             None \<Rightarrow> (a, dudMessageHandles @ [msgHandle])
           | Some body \<Rightarrow>
               (case gabsParseJSON e body of
                  Inl err \<Rightarrow> (a, dudMessageHandles @ [msgHandle])
                | Inr gObj0 \<Rightarrow>
                    (case openEnvelope e a gObj0 of
                       None \<Rightarrow> (a, dudMessageHandles @ [msgHandle])
                     | Some gObj \<Rightarrow> appendTargets e gObj msgHandle (a, dudMessageHandles)))))"

text \<open>
  \<open>readSQSEvents\<close> returns its error, \<open>None\<close> for nil. The request records the queue,
  \<open>MaxNumberOfMessages\<close> and the timeout from which \<open>WaitTimeSeconds\<close> is computed.
\<close>

definition readSQSEvents :: "env \<Rightarrow> AmazonS3 \<times> call list
                               \<Rightarrow> (error option \<times> AmazonS3 \<times> call list) option" where
  "readSQSEvents e st =
     (case st of (a, cs) \<Rightarrow>
        (case sqs a of
           None \<Rightarrow> None
         | Some _ \<Rightarrow>
             (let cs1 = cs @ [ReceiveMessageCall (SQSURL (conf a)) (SQSMaxMessages (conf a)) (timeout a)]
              in case receiveMessage e (length cs) of
                   Inl err \<Rightarrow> Some (Some err, a, cs1)
                 | Inr msgs \<Rightarrow>
                     (case fold (handleSQSMessage e) msgs (a, []) of
                        (a1, dudMessageHandles) \<Rightarrow>
                          (case deleteMessageBatches a1 dudMessageHandles cs1 of
                             None \<Rightarrow> None
                           | Some cs2 \<Rightarrow>
                               Some (if length (targetKeys a1) = 0 then Some ErrTimeout else None,
                                     a1, cs2))))))"

subsection \<open>Read\<close>

definition popTargetKey :: "AmazonS3 \<Rightarrow> AmazonS3" where
  "popTargetKey a =
     (if length (targetKeys a) = 0 then a
      else (let target = targetKeys a ! 0
            in a\<lparr> targetKeys := (if length (targetKeys a) > 1 then drop 1 (targetKeys a) else []),
                  readKeys := readKeys a @ [target] \<rparr>))"

definition addS3Metadata :: "env \<Rightarrow> (string \<rightharpoonup> string) \<Rightarrow> s3_object \<Rightarrow> (string \<rightharpoonup> string)" where
  "addS3Metadata e meta obj =
     (let meta1 = (case LastModified obj of
                     Some t \<Rightarrow> meta(''s3_last_modified'' \<mapsto> formatRFC3339 e t,
                                     ''s3_last_modified_unix'' \<mapsto> formatUnix e t)
                   | None \<Rightarrow> meta)
      in case ContentType obj of
           Some ct \<Rightarrow> meta1(''s3_content_type'' \<mapsto> ct)
         | None \<Rightarrow> meta1)"

text \<open>
  The batching loop of \<open>read\<close>. It returns the message or the error, with the reader and
  the log. \<open>attempts\<close> is only ever decremented by one and compared with zero, which a
  machine integer answers as \<open>int\<close> does.
\<close>

function readLoop :: "env \<Rightarrow> AmazonS3 \<Rightarrow> call list \<Rightarrow> message
                        \<Rightarrow> ((error + message) \<times> AmazonS3 \<times> call list) option" where
  "readLoop e a cs msg =
     (if length (targetKeys a) > 0 \<and> int (length msg) < MaxBatchCount (conf a) \<and> timeLeft e (length cs)
      then
        (let target = targetKeys a ! 0;
             bucket = (if length (s3Bucket target) > 0 then s3Bucket target else Bucket (conf a));
             cs1 = cs @ [GetObjectCall bucket (s3Key target)]
         in case s3 a of
              None \<Rightarrow> None
            | Some _ \<Rightarrow>
                (case getObject e (length cs) of
                   Inl err \<Rightarrow>
                     (let target1 = target\<lparr> attempts := attempts target - 1 \<rparr>
                      in if attempts target1 = 0
                         then readLoop e (popTargetKey a) cs1 msg
                         else (let a1 = a\<lparr> targetKeys := (targetKeys a)[0 := target1] \<rparr>
                               in if length msg = 0
                                  then Some (Inl (Errorf ''failed to download file '%s' from bucket '%s': %v''
                                                    [ArgStr (s3Key target), ArgStr bucket, ArgErr err]),
                                             a1, cs1)
                                  else Some (Inr msg, a1, cs1)))
                 | Inr obj \<Rightarrow>
                     (case ObjBody obj of
                        Inl err \<Rightarrow>
                          Some (Inl (Errorf ''failed to download file '%s' from bucket '%s': %v''
                                       [ArgStr (s3Key target), ArgStr bucket, ArgErr err]),
                                popTargetKey a, cs1)
                      | Inr bytes \<Rightarrow>
                          readLoop e (popTargetKey a) cs1
                            (msg @ [\<lparr> payload = bytes,
                                      metadata = addS3Metadata e
                                        ((ObjMetadata obj)(''s3_key'' \<mapsto> s3Key target,
                                                           ''s3_bucket'' \<mapsto> bucket)) obj \<rparr>]))))
      else Some (Inr msg, a, cs))"
  by pat_completeness auto
termination
  by (relation "measure (\<lambda>(e, a, cs, msg). length (targetKeys a))")
     (auto simp: popTargetKey_def)

text \<open>The batching loop of \<open>readFromMgr\<close>, which downloads through the download manager.\<close>

function readFromMgrLoop :: "env \<Rightarrow> AmazonS3 \<Rightarrow> call list \<Rightarrow> message
                               \<Rightarrow> ((error + message) \<times> AmazonS3 \<times> call list) option" where
  "readFromMgrLoop e a cs msg =
     (if length (targetKeys a) > 0 \<and> int (length msg) < MaxBatchCount (conf a) \<and> timeLeft e (length cs)
      then
        (let target = targetKeys a ! 0;
             bucket = (if length (s3Bucket target) > 0 then s3Bucket target else Bucket (conf a));
             cs1 = cs @ [DownloadCall bucket (s3Key target)]
         in case downloader a of
              None \<Rightarrow> None
            | Some _ \<Rightarrow>
                (case download e (length cs) of
                   Inl err \<Rightarrow>
                     (let target1 = target\<lparr> attempts := attempts target - 1 \<rparr>
                      in if attempts target1 = 0
                         then readFromMgrLoop e (popTargetKey a) cs1 msg
                         else (let a1 = a\<lparr> targetKeys := (targetKeys a)[0 := target1] \<rparr>
                               in if length msg = 0
                                  then Some (Inl (Errorf ''failed to download file '%s' from bucket '%s': %v''
                                                    [ArgStr (s3Key target), ArgStr bucket, ArgErr err]),
                                             a1, cs1)
                                  else Some (Inr msg, a1, cs1)))
                 | Inr bytes \<Rightarrow>
                     readFromMgrLoop e (popTargetKey a) cs1
                       (msg @ [\<lparr> payload = bytes,
                                 metadata = [''s3_key'' \<mapsto> s3Key target, ''s3_bucket'' \<mapsto> bucket] \<rparr>])))
      else Some (Inr msg, a, cs))"
  by pat_completeness auto
termination
  by (relation "measure (\<lambda>(e, a, cs, msg). length (targetKeys a))")
     (auto simp: popTargetKey_def)

text \<open>
  What \<open>read\<close> and \<open>readFromMgr\<close> do before their loops: the block
  \<open>if len(a.targetKeys) == 0\<close> with its early returns. It gives the error to return, if
  any, with the reader and the log.
\<close>

definition fetchTargets :: "env \<Rightarrow> AmazonS3 \<times> call list
                              \<Rightarrow> (error option \<times> AmazonS3 \<times> call list) option" where
  "fetchTargets e st =
     (case st of (a, cs) \<Rightarrow>
        if length (targetKeys a) = 0
        then (if sqs a \<noteq> None
              then readSQSEvents e (a, cs)
              else Some (Some ErrTypeClosed, a, cs))
        else Some (None, a, cs))"

definition read :: "env \<Rightarrow> AmazonS3 \<times> call list
                      \<Rightarrow> ((error + message) \<times> AmazonS3 \<times> call list) option" where
  "read e st =
     (case st of (a, cs) \<Rightarrow>
        if session a = None then Some (Inl ErrNotConnected, a, cs)
        else (case fetchTargets e (a, cs) of
                None \<Rightarrow> None
              | Some (Some err, a1, cs1) \<Rightarrow> Some (Inl err, a1, cs1)
              | Some (None, a1, cs1) \<Rightarrow>
                  if length (targetKeys a1) = 0 then Some (Inl ErrTimeout, a1, cs1)
                  else readLoop e a1 cs1 []))"

definition readFromMgr :: "env \<Rightarrow> AmazonS3 \<times> call list
                             \<Rightarrow> ((error + message) \<times> AmazonS3 \<times> call list) option" where
  "readFromMgr e st =
     (case st of (a, cs) \<Rightarrow>
        if session a = None then Some (Inl ErrNotConnected, a, cs)
        else (case fetchTargets e (a, cs) of
                None \<Rightarrow> None
              | Some (Some err, a1, cs1) \<Rightarrow> Some (Inl err, a1, cs1)
              | Some (None, a1, cs1) \<Rightarrow>
                  if length (targetKeys a1) = 0 then Some (Inl ErrTimeout, a1, cs1)
                  else readFromMgrLoop e a1 cs1 []))"

definition Read :: "env \<Rightarrow> AmazonS3 \<times> call list
                      \<Rightarrow> ((error + message) \<times> AmazonS3 \<times> call list) option" where
  "Read e st =
     (case readMethod (fst st) of
        ReadFromMgr \<Rightarrow> readFromMgr e st
      | ReadDirect \<Rightarrow> read e st)"

subsection \<open>The states the reader can be in\<close>

text \<open>
  A reader starts as \<open>NewAmazonS3\<close> returns it, with no call made, and changes only through
  \<open>Connect\<close>, \<open>Read\<close> and \<open>Acknowledge\<close> calls that return. The world may answer every
  operation differently, so each step has an environment of its own.
\<close>

inductive reachable :: "AmazonS3 \<times> call list \<Rightarrow> bool" where
  reach_new: "NewAmazonS3 e c = Inr a \<Longrightarrow> reachable (a, [])"
| reach_connect: "reachable st \<Longrightarrow> Connect e st = (r, st') \<Longrightarrow> reachable st'"
| reach_read: "reachable st \<Longrightarrow> Read e st = Some (res, st') \<Longrightarrow> reachable st'"
| reach_acknowledge: "reachable st \<Longrightarrow> Acknowledge err st = Some (r, st') \<Longrightarrow> reachable st'"

text \<open>
  What holds of the clients in every such state: the batch bound the constructor checked,
  the S3 client and the downloader present once a session is, the SQS client present
  exactly when a session is and a queue is configured, keys read only through a session,
  and SQS handles held only when there is an SQS client.
\<close>

definition clientsReady :: "AmazonS3 \<Rightarrow> bool" where
  "clientsReady a \<longleftrightarrow>
     1 \<le> MaxBatchCount (conf a) \<and>
     (session a \<noteq> None \<longrightarrow> s3 a \<noteq> None \<and> downloader a \<noteq> None) \<and>
     (sqs a \<noteq> None \<longleftrightarrow> session a \<noteq> None \<and> SQSURL (conf a) \<noteq> []) \<and>
     (readKeys a \<noteq> [] \<longrightarrow> session a \<noteq> None) \<and>
     ((\<exists>k \<in> set (readKeys a @ targetKeys a). sqsHandle k \<noteq> None) \<longrightarrow> sqs a \<noteq> None)"

section \<open>The decompress processor\<close>

text \<open>
  In this processor a message is \<open>types.Message\<close> with \<open>Parts [][]byte\<close>: the list of its
  payloads. A response is \<open>types.NewSimpleResponse(err)\<close>; with \<open>None\<close> it reports success.
\<close>

type_synonym raw_message = "string list"

datatype response = SimpleResponse "error option"

record DecompressConfig =
  Algorithm :: string
  Parts :: "int list"

text \<open>
  The struct \<open>Decompress\<close>: its field \<open>conf\<close> is \<open>dconf\<close> here, \<open>decomp\<close> is the decompression
  function chosen by \<open>strToDecompressor\<close>. Counters sent to \<open>stats\<close> are collected in a list.
\<close>

record Decompress =
  dconf :: DecompressConfig
  decomp :: "string \<Rightarrow> error + string"

text \<open>
  The loop over \<open>msg.Parts\<close>, at index \<open>i\<close>, with \<open>newMsg.Parts\<close> and the counters so far.
\<close>

fun processParts :: "Decompress \<Rightarrow> nat \<Rightarrow> nat \<Rightarrow> string list \<Rightarrow> string list \<times> string list
                       \<Rightarrow> string list \<times> string list" where
  "processParts d lParts i [] acc = acc"
| "processParts d lParts i (part # rest) (newParts, stats) =
     (let noParts = (length (Parts (dconf d)) = 0);
          nI = int i - int lParts;
          isTarget = (noParts \<or> list_ex (\<lambda>t. t = nI \<or> t = int i) (Parts (dconf d)))
      in if \<not> isTarget
         then processParts d lParts (Suc i) rest (newParts @ [part], stats)
         else (case decomp d part of
                 Inr newPart \<Rightarrow>
                   processParts d lParts (Suc i) rest
                     (newParts @ [newPart], stats @ [''processor.decompress.success''])
               | Inl err \<Rightarrow>
                   processParts d lParts (Suc i) rest
                     (newParts, stats @ [''processor.decompress.error''])))"

definition ProcessMessage :: "Decompress \<Rightarrow> raw_message
                                \<Rightarrow> raw_message list \<times> response option \<times> string list" where
  "ProcessMessage d msg =
     (case processParts d (length msg) 0 msg ([], [''processor.decompress.count'']) of
        (newParts, stats) \<Rightarrow>
          if length newParts = 0
          then ([], Some (SimpleResponse None), stats @ [''processor.decompress.skipped''])
          else ([newParts], None, stats @ [''processor.decompress.sent'']))"

section \<open>The input constructors (lib/input/nsq.go, lib/input/redis_list.go)\<close>

text \<open>
  The constructors call \<open>reader.NewNSQ\<close>, \<open>reader.NewRedisList\<close>, \<open>reader.NewPreserver\<close> and
  \<open>NewReader\<close>, none of which is among the sources. The two low-level readers and the
  reader adaptor are parameters: a low-level reader is a value of type \<open>'u\<close> with its
  \<open>Read\<close> and \<open>Acknowledge\<close>, each returning its result and the reader afterwards.
\<close>

record ('nc, 'rc) Config =
  NSQ :: 'nc
  RedisList :: 'rc

record 'u Preserver =
  wrapped :: 'u
  unAcked :: "raw_message option"
  retained :: "raw_message option"

text \<open>
  A \<open>reader.Type\<close> as the constructors hand it to \<open>NewReader\<close>: a low-level reader itself,
  or a preserver around one.
\<close>

datatype 'u reader_type = Direct 'u | Preserved "'u Preserver"

record ('nc, 'rc, 'u, 'i) reader_lib =
  readerNewNSQ :: "'nc \<Rightarrow> error + 'u"
  readerNewRedisList :: "'rc \<Rightarrow> error + 'u"
  lowRead :: "'u \<Rightarrow> (error + raw_message) \<times> 'u"
  lowAcknowledge :: "error option \<Rightarrow> 'u \<Rightarrow> error option \<times> 'u"
  NewReader :: "string \<Rightarrow> 'u reader_type \<Rightarrow> error + 'i"

text \<open>
  Modelled from the spec: \<open>reader.NewPreserver\<close> and the preserver's \<open>Read\<close> and
  \<open>Acknowledge\<close> are missing from the sources. The spec (4.1, Preserver wrapper): if
  \<open>Acknowledge(err)\<close> arrives with \<open>err != nil\<close>, the preserver retains the last message and
  re-emits it on the next \<open>Read()\<close> call instead of polling the upstream. \<open>unAcked\<close> is the
  last message handed out and not yet acknowledged, \<open>retained\<close> the message kept for
  re-emission. A successful acknowledgement is passed on to the wrapped reader.
\<close>

definition NewPreserver :: "'u \<Rightarrow> 'u Preserver" where
  "NewPreserver u = \<lparr> wrapped = u, unAcked = None, retained = None \<rparr>"

definition preserverRead :: "('nc, 'rc, 'u, 'i) reader_lib \<Rightarrow> 'u Preserver
                               \<Rightarrow> (error + raw_message) \<times> 'u Preserver" where
  "preserverRead lib p =
     (case retained p of
        Some m \<Rightarrow> (Inr m, p\<lparr> retained := None, unAcked := Some m \<rparr>)
      | None \<Rightarrow>
          (case lowRead lib (wrapped p) of
             (Inr m, u) \<Rightarrow> (Inr m, p\<lparr> wrapped := u, unAcked := Some m \<rparr>)
           | (Inl err, u) \<Rightarrow> (Inl err, p\<lparr> wrapped := u \<rparr>)))"

definition preserverAcknowledge :: "('nc, 'rc, 'u, 'i) reader_lib \<Rightarrow> error option \<Rightarrow> 'u Preserver
                                      \<Rightarrow> error option \<times> 'u Preserver" where
  "preserverAcknowledge lib err p =
     (case err of
        None \<Rightarrow>
          (case lowAcknowledge lib None (wrapped p) of
             (r, u) \<Rightarrow> (r, p\<lparr> wrapped := u, unAcked := None \<rparr>))
      | Some _ \<Rightarrow> (None, p\<lparr> retained := unAcked p, unAcked := None \<rparr>))"

text \<open>The interface calls \<open>Read\<close> and \<open>Acknowledge\<close> on a \<open>reader.Type\<close>.\<close>

fun typeRead :: "('nc, 'rc, 'u, 'i) reader_lib \<Rightarrow> 'u reader_type
                   \<Rightarrow> (error + raw_message) \<times> 'u reader_type" where
  "typeRead lib (Direct u) = (case lowRead lib u of (res, u') \<Rightarrow> (res, Direct u'))"
| "typeRead lib (Preserved p) = (case preserverRead lib p of (res, p') \<Rightarrow> (res, Preserved p'))"

fun typeAcknowledge :: "('nc, 'rc, 'u, 'i) reader_lib \<Rightarrow> error option \<Rightarrow> 'u reader_type
                          \<Rightarrow> error option \<times> 'u reader_type" where
  "typeAcknowledge lib err (Direct u) =
     (case lowAcknowledge lib err u of (r, u') \<Rightarrow> (r, Direct u'))"
| "typeAcknowledge lib err (Preserved p) =
     (case preserverAcknowledge lib err p of (r, p') \<Rightarrow> (r, Preserved p'))"

text \<open>The low-level reader inside a \<open>reader.Type\<close>.\<close>

fun lowLevel :: "'u reader_type \<Rightarrow> 'u" where
  "lowLevel (Direct u) = u"
| "lowLevel (Preserved p) = wrapped p"

definition NewNSQ :: "('nc, 'rc, 'u, 'i) reader_lib \<Rightarrow> ('nc, 'rc) Config \<Rightarrow> error + 'i" where
  "NewNSQ lib c =
     (case readerNewNSQ lib (NSQ c) of
        Inl err \<Rightarrow> Inl err
      | Inr n \<Rightarrow> NewReader lib ''nsq'' (Direct n))"

definition NewRedisList :: "('nc, 'rc, 'u, 'i) reader_lib \<Rightarrow> ('nc, 'rc) Config \<Rightarrow> error + 'i" where
  "NewRedisList lib c =
     (case readerNewRedisList lib (RedisList c) of
        Inl err \<Rightarrow> Inl err
      | Inr r \<Rightarrow> NewReader lib ''redis_list'' (Preserved (NewPreserver r)))"

section \<open>Names used in the statements\<close>

text \<open>
  The bucket a key is fetched from and deleted in: the expression the two read loops and
  \<open>Acknowledge\<close> each compute for \<open>bucket\<close>.
\<close>

definition objectBucket :: "AmazonS3 \<Rightarrow> objKey \<Rightarrow> string" where
  "objectBucket a k = (if length (s3Bucket k) > 0 then s3Bucket k else Bucket (conf a))"

text \<open>The condition of the two batching loops.\<close>

definition loopGoesOn :: "env \<Rightarrow> AmazonS3 \<Rightarrow> call list \<Rightarrow> message \<Rightarrow> bool" where
  "loopGoesOn e a cs msg \<longleftrightarrow>
     length (targetKeys a) > 0 \<and> int (length msg) < MaxBatchCount (conf a) \<and> timeLeft e (length cs)"

text \<open>The error both loops return for a failed download.\<close>

definition downloadFailed :: "objKey \<Rightarrow> string \<Rightarrow> error \<Rightarrow> error" where
  "downloadFailed k bucket err =
     Errorf ''failed to download file '%s' from bucket '%s': %v'' [ArgStr (s3Key k), ArgStr bucket, ArgErr err]"

text \<open>A key without its retry counter, the one field a failed download changes.\<close>

definition keyId :: "objKey \<Rightarrow> string \<times> string \<times> sqs_entry option" where
  "keyId k = (s3Key k, s3Bucket k, sqsHandle k)"

text \<open>
  The bucket names \<open>readSQSEvents\<close> extracts from an event (its variable \<open>buckets\<close>), and
  the target key it ends up appending for the \<open>i\<close>-th of \<open>n\<close> object keys of an event that
  lists its keys: only the last carries the handle.
\<close>

definition eventBuckets :: "env \<Rightarrow> AmazonS3 \<Rightarrow> json \<Rightarrow> string list" where
  "eventBuckets e a gObj =
     (case gabsSearch e gObj (sqsBucketPath a) of
        JString t \<Rightarrow> [t]
      | JArray t \<Rightarrow> digStrsFromSlices t
      | _ \<Rightarrow> [])"

definition eventKey :: "AmazonS3 \<Rightarrow> string list \<Rightarrow> sqs_entry \<Rightarrow> nat \<Rightarrow> nat \<times> string \<Rightarrow> objKey" where
  "eventKey a buckets h n it =
     \<lparr> s3Key = snd it,
       s3Bucket = (if length buckets > fst it then buckets ! fst it else []),
       attempts = Retries (conf a),
       sqsHandle = (if Suc (fst it) = n then Some h else None) \<rparr>"

section \<open>Two runs of the reader\<close>

subsection \<open>A bucket driven by an SQS queue\<close>

text \<open>
  One retry, objects deleted after use, batches of two. The queue delivers one event
  whose body lists three object keys, two of them under the prefix. The first download
  fails, every later one succeeds.
\<close>

definition sqsConf :: AmazonS3Config where
  "sqsConf = \<lparr> Bucket = ''bkt'', Prefix = ''in/'', Retries = 1, DownloadManagerEnabled = False,
               DeleteObjects = True, SQSURL = ''queue'', SQSBodyPath = ''Records.s3.object.key'',
               SQSBucketPath = [], SQSEnvelopePath = [], SQSMaxMessages = 10,
               MaxBatchCount = 2, Timeout = ''5s'' \<rparr>"

definition sqsEnv :: env where
  "sqsEnv = \<lparr> getSession = (\<lambda>n. Inr (Session 0)),
              listObjectsPages = (\<lambda>n. ([], None)),
              receiveMessage = (\<lambda>n. Inr [\<lparr> MessageId = Some ''m1'', ReceiptHandleM = Some ''r1'',
                                             Body = Some ''event'' \<rparr>]),
              getObject = (\<lambda>n. if n = 2 then Inl (ErrExternal ''NoSuchKey'')
                                else Inr \<lparr> ObjBody = Inr ''data'', ObjMetadata = Map.empty,
                                           LastModified = None, ContentType = None \<rparr>),
              download = (\<lambda>n. Inl (ErrExternal ''NoSuchKey'')),
              timeLeft = (\<lambda>n. True),
              parseDuration = (\<lambda>s. Inr 5000000000),
              gabsParseJSON = (\<lambda>s. Inr (JObject [])),
              gabsSearch = (\<lambda>j p. if p = [''Records'', ''s3'', ''object'', ''key'']
                                    then JArray [JString ''in/a'', JString ''out/b'', JString ''in/c'']
                                    else JNull),
              jsonUnmarshal = (\<lambda>s. Inl (ErrExternal [])),
              formatRFC3339 = (\<lambda>t. []),
              formatUnix = (\<lambda>t. []) \<rparr>"

text \<open>The same world with an empty queue.\<close>

definition idleEnv :: env where
  "idleEnv = sqsEnv\<lparr> receiveMessage := (\<lambda>n. Inr []) \<rparr>"

definition sqsHandle1 :: sqs_entry where
  "sqsHandle1 = \<lparr> Id = Some ''m1'', ReceiptHandle = Some ''r1'' \<rparr>"

text \<open>The message that \<^const>\<open>sqsEnv\<close> delivers, and an environment whose event names a single key
  \<^verbatim>\<open>in/x\<close> and, under the empty bucket path, the two buckets \<^verbatim>\<open>b1\<close> and \<^verbatim>\<open>b2\<close>.\<close>

definition sqsMessage1 :: sqs_message where
  "sqsMessage1 = \<lparr> MessageId = Some ''m1'', ReceiptHandleM = Some ''r1'', Body = Some ''event'' \<rparr>"

definition singleEnv :: env where
  "singleEnv = sqsEnv\<lparr> gabsSearch := (\<lambda>j p. if p = [] then JArray [JString ''b1'', JString ''b2'']
                                              else JString ''in/x'') \<rparr>"

text \<open>The reader as constructed, as connected, and the keys and the part of its first read.\<close>

definition sqsNew :: AmazonS3 where
  "sqsNew = \<lparr> conf = sqsConf, sqsBodyPath = [''Records'', ''s3'', ''object'', ''key''],
              sqsEnvPath = [], sqsBucketPath = [], readKeys = [], targetKeys = [],
              readMethod = ReadDirect, session = None, s3 = None, downloader = None,
              sqs = None, timeout = 5000000000 \<rparr>"

definition sqsConnected :: AmazonS3 where
  "sqsConnected = sqsNew\<lparr> sqs := Some (SQSNew (Session 0)), session := Some (Session 0),
                           downloader := Some (NewDownloader (Session 0)),
                           s3 := Some (S3New (Session 0)) \<rparr>"

definition sqsDropped :: objKey where
  "sqsDropped = \<lparr> s3Key = ''in/a'', s3Bucket = [], attempts = 1, sqsHandle = None \<rparr>"

definition sqsLast :: objKey where
  "sqsLast = \<lparr> s3Key = ''in/c'', s3Bucket = [], attempts = 1, sqsHandle = Some sqsHandle1 \<rparr>"

definition sqsKeys :: "objKey list" where
  "sqsKeys = [sqsDropped, sqsLast]"

definition sqsFetched :: "call list" where
  "sqsFetched = [GetSessionCall, ReceiveMessageCall ''queue'' 10 5000000000]"

definition sqsLog :: "call list" where
  "sqsLog = sqsFetched @ [GetObjectCall ''bkt'' ''in/a'', GetObjectCall ''bkt'' ''in/c'']"

definition sqsPart :: "string \<Rightarrow> part" where
  "sqsPart k = \<lparr> payload = ''data'',
                 metadata = [''s3_key'' \<mapsto> k, ''s3_bucket'' \<mapsto> ''bkt''] \<rparr>"

subsection \<open>A listed bucket\<close>

text \<open>
  No queue, one retry, batches of one. The listing has one key, whose download always
  fails.
\<close>

definition listConf :: AmazonS3Config where
  "listConf = \<lparr> Bucket = ''bkt'', Prefix = [], Retries = 1, DownloadManagerEnabled = False,
                DeleteObjects = False, SQSURL = [], SQSBodyPath = ''Records.s3.object.key'',
                SQSBucketPath = [], SQSEnvelopePath = [], SQSMaxMessages = 10,
                MaxBatchCount = 1, Timeout = ''5s'' \<rparr>"

definition listEnv :: env where
  "listEnv = sqsEnv\<lparr> listObjectsPages := (\<lambda>n. ([[''k1'']], None)),
                      getObject := (\<lambda>n. Inl (ErrExternal ''NoSuchKey'')) \<rparr>"

definition listNew :: AmazonS3 where
  "listNew = sqsNew\<lparr> conf := listConf \<rparr>"

definition listKey :: objKey where
  "listKey = \<lparr> s3Key = ''k1'', s3Bucket = [], attempts = 1, sqsHandle = None \<rparr>"

definition listConnected :: AmazonS3 where
  "listConnected = listNew\<lparr> targetKeys := [listKey], session := Some (Session 0),
                             downloader := Some (NewDownloader (Session 0)),
                             s3 := Some (S3New (Session 0)) \<rparr>"

definition listLog :: "call list" where
  "listLog = [GetSessionCall, ListObjectsPagesCall ''bkt'' None]"

section \<open>Names used in the statements about the decompress processor\<close>

text \<open>
  Whether the part at index \<open>i\<close> of a message of \<open>lParts\<close> parts is a target: what the
  loop computes for \<open>isTarget\<close>.
\<close>

definition isTargetPart :: "Decompress \<Rightarrow> nat \<Rightarrow> nat \<Rightarrow> bool" where
  "isTargetPart d lParts i \<longleftrightarrow>
     length (Parts (dconf d)) = 0 \<or>
     list_ex (\<lambda>t. t = int i - int lParts \<or> t = int i) (Parts (dconf d))"

text \<open>
  The parts the processor is said to keep: every part that is no target as it is, every
  target that decompresses replaced by its decompressed payload, in the order of the
  message; a target that fails to decompress is left out.
\<close>

definition keptParts :: "Decompress \<Rightarrow> raw_message \<Rightarrow> string list" where
  "keptParts d msg =
     concat (map (\<lambda>(i, part).
                    if isTargetPart d (length msg) i
                    then (case decomp d part of Inr newPart \<Rightarrow> [newPart] | Inl err \<Rightarrow> [])
                    else [part])
                 (enumerate 0 msg))"

text \<open>
  A processor on the first and the last part whose decompression function accepts one
  payload only.
\<close>

definition gzDemo :: Decompress where
  "gzDemo = \<lparr> dconf = \<lparr> Algorithm = ''gzip'', Parts = [0, - 1] \<rparr>,
              decomp = (\<lambda>b. if b = ''gz'' then Inr ''plain'' else Inl (ErrExternal ''gzip: invalid header'')) \<rparr>"

subsection \<open>Two inputs over queues\<close>

text \<open>A library whose low-level readers are queues of messages: \<open>Read\<close> takes the head of
  the queue (a timeout when it is empty), \<open>Acknowledge\<close> changes nothing, and the adaptor
  returns its name and the reader it was given.\<close>

definition queueLib :: "(raw_message list, raw_message list, raw_message list,
                         string \<times> raw_message list reader_type) reader_lib" where
  "queueLib = \<lparr> readerNewNSQ = Inr, readerNewRedisList = Inr,
                lowRead = (\<lambda>u. case u of [] \<Rightarrow> (Inl ErrTimeout, [])
                                        | m # ms \<Rightarrow> (Inr m, ms)),
                lowAcknowledge = (\<lambda>err u. (None, u)),
                NewReader = (\<lambda>name t. Inr (name, t)) \<rparr>"

definition queueConf :: "(raw_message list, raw_message list) Config" where
  "queueConf = \<lparr> NSQ = [[''n1''], [''n2'']], RedisList = [[''r1''], [''r2'']] \<rparr>"

section \<open>Lemmas\<close>

text \<open>The loops are unfolded one step at a time, by the lemmas below.\<close>

declare readLoop.simps [simp del] readFromMgrLoop.simps [simp del] deleteMessageBatches.simps [simp del]

subsection \<open>Acknowledge\<close>

lemma ackKeys_char:
  "ackKeys a ks (hs, cs) =
     (if DeleteObjects (conf a) \<and> ks \<noteq> [] \<and> s3 a = None then None
      else Some (hs @ List.map_filter sqsHandle ks,
                 cs @ (if DeleteObjects (conf a)
                       then map (\<lambda>k. DeleteObjectCall (if length (s3Bucket k) > 0 then s3Bucket k else Bucket (conf a)) (s3Key k)) ks
                       else [])))"
  by (induction ks arbitrary: hs cs) (auto simp: Let_def split: option.splits)

lemma dmb_char:
  "sqs a \<noteq> None \<or> hs = [] \<Longrightarrow>
   \<exists>bs. deleteMessageBatches a hs cs = Some (cs @ map (DeleteMessageBatchCall (SQSURL (conf a))) bs)
        \<and> concat bs = hs \<and> (\<forall>b \<in> set bs. b \<noteq> [] \<and> length b \<le> 10)"
proof (induction a hs cs rule: deleteMessageBatches.induct)
  case (1 a hs cs)
  show ?case
  proof (cases "hs = []")
    case True
    then show ?thesis by (intro exI[of _ "[]"]) (simp add: deleteMessageBatches.simps)
  next
    case False
    with 1(2) obtain q where q: "sqs a = Some q" by auto
    let ?entries = "if length hs > 10 then take 10 hs else hs"
    let ?rest = "if length hs > 10 then drop 10 hs else []"
    let ?cs1 = "cs @ [DeleteMessageBatchCall (SQSURL (conf a)) ?entries]"
    from False q 1(2) have "\<exists>bs. deleteMessageBatches a ?rest ?cs1 = Some (?cs1 @ map (DeleteMessageBatchCall (SQSURL (conf a))) bs)
        \<and> concat bs = ?rest \<and> (\<forall>b \<in> set bs. b \<noteq> [] \<and> length b \<le> 10)"
      by (intro 1(1)[of ?entries ?rest q]) auto
    then obtain bs where bs: "deleteMessageBatches a ?rest ?cs1 = Some (?cs1 @ map (DeleteMessageBatchCall (SQSURL (conf a))) bs)"
       "concat bs = ?rest" "\<forall>b \<in> set bs. b \<noteq> [] \<and> length b \<le> 10" by blast
    have unf: "deleteMessageBatches a hs cs = deleteMessageBatches a ?rest ?cs1"
      using False q by (subst deleteMessageBatches.simps) (simp add: Let_def)
    show ?thesis
      apply (rule exI[of _ "?entries # bs"])
      using bs False unf by auto
  qed
qed

subsection \<open>The batching loops, one step at a time\<close>

lemma popTargetKey_Cons:
  "targetKeys a = k # ks \<Longrightarrow> popTargetKey a = a\<lparr> targetKeys := ks, readKeys := readKeys a @ [k] \<rparr>"
  by (cases ks) (simp_all add: popTargetKey_def)

lemma readLoop_stop:
  "\<not> loopGoesOn e a cs msg \<Longrightarrow> readLoop e a cs msg = Some (Inr msg, a, cs)"
  by (subst readLoop.simps) (auto simp: loopGoesOn_def)

lemma readLoop_panic:
  "loopGoesOn e a cs msg \<Longrightarrow> s3 a = None \<Longrightarrow> readLoop e a cs msg = None"
  by (subst readLoop.simps) (auto simp: loopGoesOn_def Let_def)

lemma readLoop_drop:
  "loopGoesOn e a cs msg \<Longrightarrow> targetKeys a = k # ks \<Longrightarrow> s3 a = Some x \<Longrightarrow>
   getObject e (length cs) = Inl err \<Longrightarrow> attempts k = 1 \<Longrightarrow>
   readLoop e a cs msg =
     readLoop e (a\<lparr> targetKeys := ks, readKeys := readKeys a @ [k] \<rparr>)
       (cs @ [GetObjectCall (objectBucket a k) (s3Key k)]) msg"
  by (subst readLoop.simps) (simp add: loopGoesOn_def Let_def objectBucket_def popTargetKey_Cons)

lemma readLoop_retry:
  "loopGoesOn e a cs msg \<Longrightarrow> targetKeys a = k # ks \<Longrightarrow> s3 a = Some x \<Longrightarrow>
   getObject e (length cs) = Inl err \<Longrightarrow> attempts k \<noteq> 1 \<Longrightarrow>
   readLoop e a cs msg =
     Some (if msg = [] then Inl (downloadFailed k (objectBucket a k) err) else Inr msg,
           a\<lparr> targetKeys := k\<lparr> attempts := attempts k - 1 \<rparr> # ks \<rparr>,
           cs @ [GetObjectCall (objectBucket a k) (s3Key k)])"
  by (subst readLoop.simps) (simp add: loopGoesOn_def Let_def objectBucket_def downloadFailed_def)

lemma readLoop_body_failed:
  "loopGoesOn e a cs msg \<Longrightarrow> targetKeys a = k # ks \<Longrightarrow> s3 a = Some x \<Longrightarrow>
   getObject e (length cs) = Inr obj \<Longrightarrow> ObjBody obj = Inl err \<Longrightarrow>
   readLoop e a cs msg =
     Some (Inl (downloadFailed k (objectBucket a k) err),
           a\<lparr> targetKeys := ks, readKeys := readKeys a @ [k] \<rparr>,
           cs @ [GetObjectCall (objectBucket a k) (s3Key k)])"
  by (subst readLoop.simps)
     (simp add: loopGoesOn_def Let_def objectBucket_def downloadFailed_def popTargetKey_Cons)

lemma readLoop_part:
  "loopGoesOn e a cs msg \<Longrightarrow> targetKeys a = k # ks \<Longrightarrow> s3 a = Some x \<Longrightarrow>
   getObject e (length cs) = Inr obj \<Longrightarrow> ObjBody obj = Inr bytes \<Longrightarrow>
   readLoop e a cs msg =
     readLoop e (a\<lparr> targetKeys := ks, readKeys := readKeys a @ [k] \<rparr>)
       (cs @ [GetObjectCall (objectBucket a k) (s3Key k)])
       (msg @ [\<lparr> payload = bytes,
                 metadata = addS3Metadata e
                   ((ObjMetadata obj)(''s3_key'' \<mapsto> s3Key k, ''s3_bucket'' \<mapsto> objectBucket a k)) obj \<rparr>])"
  by (subst readLoop.simps) (simp add: loopGoesOn_def Let_def objectBucket_def popTargetKey_Cons)

lemma readLoop_cases [consumes 1, case_names stop drop retry body_failed part]:
  assumes "readLoop e a cs msg = Some (r, a', cs')"
  obtains
    "\<not> loopGoesOn e a cs msg" "r = Inr msg" "a' = a" "cs' = cs"
  | k ks x err where "loopGoesOn e a cs msg" "targetKeys a = k # ks" "s3 a = Some x"
      "getObject e (length cs) = Inl err" "attempts k = 1"
      "readLoop e (a\<lparr> targetKeys := ks, readKeys := readKeys a @ [k] \<rparr>)
         (cs @ [GetObjectCall (objectBucket a k) (s3Key k)]) msg = Some (r, a', cs')"
  | k ks x err where "loopGoesOn e a cs msg" "targetKeys a = k # ks" "s3 a = Some x"
      "getObject e (length cs) = Inl err" "attempts k \<noteq> 1"
      "r = (if msg = [] then Inl (downloadFailed k (objectBucket a k) err) else Inr msg)"
      "a' = a\<lparr> targetKeys := k\<lparr> attempts := attempts k - 1 \<rparr> # ks \<rparr>"
      "cs' = cs @ [GetObjectCall (objectBucket a k) (s3Key k)]"
  | k ks x obj err where "loopGoesOn e a cs msg" "targetKeys a = k # ks" "s3 a = Some x"
      "getObject e (length cs) = Inr obj" "ObjBody obj = Inl err"
      "r = Inl (downloadFailed k (objectBucket a k) err)"
      "a' = a\<lparr> targetKeys := ks, readKeys := readKeys a @ [k] \<rparr>"
      "cs' = cs @ [GetObjectCall (objectBucket a k) (s3Key k)]"
  | k ks x obj bytes where "loopGoesOn e a cs msg" "targetKeys a = k # ks" "s3 a = Some x"
      "getObject e (length cs) = Inr obj" "ObjBody obj = Inr bytes"
      "readLoop e (a\<lparr> targetKeys := ks, readKeys := readKeys a @ [k] \<rparr>)
         (cs @ [GetObjectCall (objectBucket a k) (s3Key k)])
         (msg @ [\<lparr> payload = bytes,
                 metadata = addS3Metadata e
                   ((ObjMetadata obj)(''s3_key'' \<mapsto> s3Key k, ''s3_bucket'' \<mapsto> objectBucket a k)) obj \<rparr>])
       = Some (r, a', cs')"
proof (cases "loopGoesOn e a cs msg")
  case False
  from assms have "r = Inr msg \<and> a' = a \<and> cs' = cs"
    by (simp add: readLoop_stop[OF False])
  with False that(1) show ?thesis by blast
next
  case on: True
  then obtain k ks where ks: "targetKeys a = k # ks"
    by (cases "targetKeys a") (auto simp: loopGoesOn_def)
  show ?thesis
  proof (cases "s3 a")
    case None
    from assms show ?thesis by (simp add: readLoop_panic[OF on None])
  next
    case (Some x)
    show ?thesis
    proof (cases "getObject e (length cs)")
      case (Inl err)
      show ?thesis
      proof (cases "attempts k = 1")
        case True
        from assms have "readLoop e (a\<lparr> targetKeys := ks, readKeys := readKeys a @ [k] \<rparr>)
           (cs @ [GetObjectCall (objectBucket a k) (s3Key k)]) msg = Some (r, a', cs')"
          by (simp only: readLoop_drop[OF on ks Some Inl True])
        then show ?thesis by (rule that(2)[OF on ks Some Inl True])
      next
        case False
        from assms have "r = (if msg = [] then Inl (downloadFailed k (objectBucket a k) err) else Inr msg)
          \<and> a' = a\<lparr> targetKeys := k\<lparr> attempts := attempts k - 1 \<rparr> # ks \<rparr>
          \<and> cs' = cs @ [GetObjectCall (objectBucket a k) (s3Key k)]"
          unfolding readLoop_retry[OF on ks Some Inl False] by simp
        then show ?thesis using that(3)[OF on ks Some Inl False] by blast
      qed
    next
      case (Inr obj)
      show ?thesis
      proof (cases "ObjBody obj")
        case (Inl err)
        from assms have "r = Inl (downloadFailed k (objectBucket a k) err)
          \<and> a' = a\<lparr> targetKeys := ks, readKeys := readKeys a @ [k] \<rparr>
          \<and> cs' = cs @ [GetObjectCall (objectBucket a k) (s3Key k)]"
          unfolding readLoop_body_failed[OF on ks Some Inr Inl] by simp
        then show ?thesis using that(4)[OF on ks Some Inr Inl] by blast
      next
        case body: (Inr bytes)
        from assms show ?thesis
          unfolding readLoop_part[OF on ks Some Inr body]
          by (rule that(5)[OF on ks Some Inr body])
      qed
    qed
  qed
qed

lemma readFromMgrLoop_stop:
  "\<not> loopGoesOn e a cs msg \<Longrightarrow> readFromMgrLoop e a cs msg = Some (Inr msg, a, cs)"
  by (subst readFromMgrLoop.simps) (auto simp: loopGoesOn_def)

lemma readFromMgrLoop_panic:
  "loopGoesOn e a cs msg \<Longrightarrow> downloader a = None \<Longrightarrow> readFromMgrLoop e a cs msg = None"
  by (subst readFromMgrLoop.simps) (auto simp: loopGoesOn_def Let_def)

lemma readFromMgrLoop_drop:
  "loopGoesOn e a cs msg \<Longrightarrow> targetKeys a = k # ks \<Longrightarrow> downloader a = Some x \<Longrightarrow>
   download e (length cs) = Inl err \<Longrightarrow> attempts k = 1 \<Longrightarrow>
   readFromMgrLoop e a cs msg =
     readFromMgrLoop e (a\<lparr> targetKeys := ks, readKeys := readKeys a @ [k] \<rparr>)
       (cs @ [DownloadCall (objectBucket a k) (s3Key k)]) msg"
  by (subst readFromMgrLoop.simps) (simp add: loopGoesOn_def Let_def objectBucket_def popTargetKey_Cons)

lemma readFromMgrLoop_retry:
  "loopGoesOn e a cs msg \<Longrightarrow> targetKeys a = k # ks \<Longrightarrow> downloader a = Some x \<Longrightarrow>
   download e (length cs) = Inl err \<Longrightarrow> attempts k \<noteq> 1 \<Longrightarrow>
   readFromMgrLoop e a cs msg =
     Some (if msg = [] then Inl (downloadFailed k (objectBucket a k) err) else Inr msg,
           a\<lparr> targetKeys := k\<lparr> attempts := attempts k - 1 \<rparr> # ks \<rparr>,
           cs @ [DownloadCall (objectBucket a k) (s3Key k)])"
  by (subst readFromMgrLoop.simps) (simp add: loopGoesOn_def Let_def objectBucket_def downloadFailed_def)

lemma readFromMgrLoop_part:
  "loopGoesOn e a cs msg \<Longrightarrow> targetKeys a = k # ks \<Longrightarrow> downloader a = Some x \<Longrightarrow>
   download e (length cs) = Inr bytes \<Longrightarrow>
   readFromMgrLoop e a cs msg =
     readFromMgrLoop e (a\<lparr> targetKeys := ks, readKeys := readKeys a @ [k] \<rparr>)
       (cs @ [DownloadCall (objectBucket a k) (s3Key k)])
       (msg @ [\<lparr> payload = bytes,
                 metadata = [''s3_key'' \<mapsto> s3Key k, ''s3_bucket'' \<mapsto> objectBucket a k] \<rparr>])"
  by (subst readFromMgrLoop.simps) (simp add: loopGoesOn_def Let_def objectBucket_def popTargetKey_Cons)

lemma readFromMgrLoop_cases [consumes 1, case_names stop drop retry part]:
  assumes "readFromMgrLoop e a cs msg = Some (r, a', cs')"
  obtains
    "\<not> loopGoesOn e a cs msg" "r = Inr msg" "a' = a" "cs' = cs"
  | k ks x err where "loopGoesOn e a cs msg" "targetKeys a = k # ks" "downloader a = Some x"
      "download e (length cs) = Inl err" "attempts k = 1"
      "readFromMgrLoop e (a\<lparr> targetKeys := ks, readKeys := readKeys a @ [k] \<rparr>)
         (cs @ [DownloadCall (objectBucket a k) (s3Key k)]) msg = Some (r, a', cs')"
  | k ks x err where "loopGoesOn e a cs msg" "targetKeys a = k # ks" "downloader a = Some x"
      "download e (length cs) = Inl err" "attempts k \<noteq> 1"
      "r = (if msg = [] then Inl (downloadFailed k (objectBucket a k) err) else Inr msg)"
      "a' = a\<lparr> targetKeys := k\<lparr> attempts := attempts k - 1 \<rparr> # ks \<rparr>"
      "cs' = cs @ [DownloadCall (objectBucket a k) (s3Key k)]"
  | k ks x bytes where "loopGoesOn e a cs msg" "targetKeys a = k # ks" "downloader a = Some x"
      "download e (length cs) = Inr bytes"
      "readFromMgrLoop e (a\<lparr> targetKeys := ks, readKeys := readKeys a @ [k] \<rparr>)
         (cs @ [DownloadCall (objectBucket a k) (s3Key k)])
         (msg @ [\<lparr> payload = bytes,
                 metadata = [''s3_key'' \<mapsto> s3Key k, ''s3_bucket'' \<mapsto> objectBucket a k] \<rparr>])
       = Some (r, a', cs')"
proof (cases "loopGoesOn e a cs msg")
  case False
  from assms have "r = Inr msg \<and> a' = a \<and> cs' = cs"
    by (simp add: readFromMgrLoop_stop[OF False])
  with False that(1) show ?thesis by blast
next
  case on: True
  then obtain k ks where ks: "targetKeys a = k # ks"
    by (cases "targetKeys a") (auto simp: loopGoesOn_def)
  show ?thesis
  proof (cases "downloader a")
    case None
    from assms show ?thesis by (simp add: readFromMgrLoop_panic[OF on None])
  next
    case (Some x)
    show ?thesis
    proof (cases "download e (length cs)")
      case (Inl err)
      show ?thesis
      proof (cases "attempts k = 1")
        case True
        from assms have "readFromMgrLoop e (a\<lparr> targetKeys := ks, readKeys := readKeys a @ [k] \<rparr>)
           (cs @ [DownloadCall (objectBucket a k) (s3Key k)]) msg = Some (r, a', cs')"
          by (simp only: readFromMgrLoop_drop[OF on ks Some Inl True])
        then show ?thesis by (rule that(2)[OF on ks Some Inl True])
      next
        case False
        from assms have "r = (if msg = [] then Inl (downloadFailed k (objectBucket a k) err) else Inr msg)
          \<and> a' = a\<lparr> targetKeys := k\<lparr> attempts := attempts k - 1 \<rparr> # ks \<rparr>
          \<and> cs' = cs @ [DownloadCall (objectBucket a k) (s3Key k)]"
          unfolding readFromMgrLoop_retry[OF on ks Some Inl False] by simp
        then show ?thesis using that(3)[OF on ks Some Inl False] by blast
      qed
    next
      case (Inr bytes)
      from assms show ?thesis
        unfolding readFromMgrLoop_part[OF on ks Some Inr]
        by (rule that(4)[OF on ks Some Inr])
    qed
  qed
qed

subsection \<open>What a loop leaves behind\<close>

lemma readLoop_frame:
  "readLoop e a cs msg = Some (r, a', cs') \<Longrightarrow>
     a' = a\<lparr> readKeys := readKeys a', targetKeys := targetKeys a' \<rparr> \<and>
     (\<exists>n. readKeys a' = readKeys a @ take n (targetKeys a) \<and>
          map keyId (targetKeys a') = map keyId (drop n (targetKeys a)))"
proof (induction "targetKeys a" arbitrary: a cs msg)
  case Nil
  then have "\<not> loopGoesOn e a cs msg" by (simp add: loopGoesOn_def)
  with Nil(2) have "a' = a" by (simp add: readLoop_stop)
  then show ?case by (auto intro: exI[of _ 0])
next
  case (Cons k0 ks0)
  let ?b = "a\<lparr> targetKeys := ks0, readKeys := readKeys a @ [k0] \<rparr>"
  have tk: "targetKeys a = k0 # ks0" using Cons(2) by simp
  have step: ?case if "readLoop e ?b cs1 msg1 = Some (r, a', cs')" for cs1 msg1
  proof -
    have "ks0 = targetKeys ?b" by simp
    from Cons(1)[OF this that] obtain n where
      a: "a' = ?b\<lparr> readKeys := readKeys a', targetKeys := targetKeys a' \<rparr>"
      and n: "readKeys a' = readKeys ?b @ take n (targetKeys ?b)"
             "map keyId (targetKeys a') = map keyId (drop n (targetKeys ?b))" by blast
    have "a' = a\<lparr> readKeys := readKeys a', targetKeys := targetKeys a' \<rparr>"
      by (subst a) simp
    moreover have "readKeys a' = readKeys a @ take (Suc n) (targetKeys a)"
      using n(1) by (simp add: tk)
    moreover have "map keyId (targetKeys a') = map keyId (drop (Suc n) (targetKeys a))"
      using n(2) by (simp add: tk)
    ultimately show ?thesis by blast
  qed
  from Cons(3) show ?case
  proof (cases rule: readLoop_cases)
    case stop
    then show ?thesis by (auto intro: exI[of _ 0])
  next
    case (drop k ks x err)
    with tk have "readLoop e ?b (cs @ [GetObjectCall (objectBucket a k) (s3Key k)]) msg = Some (r, a', cs')"
      by simp
    then show ?thesis by (rule step)
  next
    case (retry k ks x err)
    then show ?thesis by (auto intro!: exI[of _ 0] simp: keyId_def)
  next
    case (body_failed k ks x obj err)
    then show ?thesis by (auto intro!: exI[of _ 1])
  next
    case (part k ks x obj bytes)
    with tk have "readLoop e ?b (cs @ [GetObjectCall (objectBucket a k) (s3Key k)])
         (msg @ [\<lparr> payload = bytes,
                 metadata = addS3Metadata e
                   ((ObjMetadata obj)(''s3_key'' \<mapsto> s3Key k, ''s3_bucket'' \<mapsto> objectBucket a k)) obj \<rparr>])
       = Some (r, a', cs')"
      by simp
    then show ?thesis by (rule step)
  qed
qed

lemma readLoop_bound:
  "readLoop e a cs msg = Some (Inr m, a', cs') \<Longrightarrow> int (length msg) \<le> MaxBatchCount (conf a)
   \<Longrightarrow> int (length m) \<le> MaxBatchCount (conf a)"
proof (induction "targetKeys a" arbitrary: a cs msg)
  case Nil
  then have "\<not> loopGoesOn e a cs msg" by (simp add: loopGoesOn_def)
  with Nil show ?case by (simp add: readLoop_stop)
next
  case (Cons k0 ks0)
  have tk: "targetKeys a = k0 # ks0" using Cons(2) by simp
  from Cons(3) show ?case
  proof (cases rule: readLoop_cases)
    case stop
    with Cons(4) show ?thesis by simp
  next
    case (drop k ks x err)
    with tk Cons(1)[of "a\<lparr> targetKeys := ks, readKeys := readKeys a @ [k] \<rparr>"] Cons(4)
    show ?thesis by simp
  next
    case (retry k ks x err)
    with Cons(4) show ?thesis by (simp split: if_splits)
  next
    case (body_failed k ks x obj err)
    then show ?thesis by simp
  next
    case (part k ks x obj bytes)
    from part(1) have "int (length msg) < MaxBatchCount (conf a)" by (simp add: loopGoesOn_def)
    with part tk Cons(1)[of "a\<lparr> targetKeys := ks, readKeys := readKeys a @ [k] \<rparr>"]
    show ?thesis by simp
  qed
qed

lemma readFromMgrLoop_frame:
  "readFromMgrLoop e a cs msg = Some (r, a', cs') \<Longrightarrow>
     a' = a\<lparr> readKeys := readKeys a', targetKeys := targetKeys a' \<rparr> \<and>
     (\<exists>n. readKeys a' = readKeys a @ take n (targetKeys a) \<and>
          map keyId (targetKeys a') = map keyId (drop n (targetKeys a)))"
proof (induction "targetKeys a" arbitrary: a cs msg)
  case Nil
  then have "\<not> loopGoesOn e a cs msg" by (simp add: loopGoesOn_def)
  with Nil(2) have "a' = a" by (simp add: readFromMgrLoop_stop)
  then show ?case by (auto intro: exI[of _ 0])
next
  case (Cons k0 ks0)
  let ?b = "a\<lparr> targetKeys := ks0, readKeys := readKeys a @ [k0] \<rparr>"
  have tk: "targetKeys a = k0 # ks0" using Cons(2) by simp
  have step: ?case if "readFromMgrLoop e ?b cs1 msg1 = Some (r, a', cs')" for cs1 msg1
  proof -
    have "ks0 = targetKeys ?b" by simp
    from Cons(1)[OF this that] obtain n where
      a: "a' = ?b\<lparr> readKeys := readKeys a', targetKeys := targetKeys a' \<rparr>"
      and n: "readKeys a' = readKeys ?b @ take n (targetKeys ?b)"
             "map keyId (targetKeys a') = map keyId (drop n (targetKeys ?b))" by blast
    have "a' = a\<lparr> readKeys := readKeys a', targetKeys := targetKeys a' \<rparr>"
      by (subst a) simp
    moreover have "readKeys a' = readKeys a @ take (Suc n) (targetKeys a)"
      using n(1) by (simp add: tk)
    moreover have "map keyId (targetKeys a') = map keyId (drop (Suc n) (targetKeys a))"
      using n(2) by (simp add: tk)
    ultimately show ?thesis by blast
  qed
  from Cons(3) show ?case
  proof (cases rule: readFromMgrLoop_cases)
    case stop
    then show ?thesis by (auto intro: exI[of _ 0])
  next
    case (drop k ks x err)
    with tk have "readFromMgrLoop e ?b (cs @ [DownloadCall (objectBucket a k) (s3Key k)]) msg = Some (r, a', cs')"
      by simp
    then show ?thesis by (rule step)
  next
    case (retry k ks x err)
    then show ?thesis by (auto intro!: exI[of _ 0] simp: keyId_def)
  next
    case (part k ks x bytes)
    with tk have "readFromMgrLoop e ?b (cs @ [DownloadCall (objectBucket a k) (s3Key k)])
         (msg @ [\<lparr> payload = bytes,
                 metadata = [''s3_key'' \<mapsto> s3Key k, ''s3_bucket'' \<mapsto> objectBucket a k] \<rparr>])
       = Some (r, a', cs')"
      by simp
    then show ?thesis by (rule step)
  qed
qed

lemma readFromMgrLoop_bound:
  "readFromMgrLoop e a cs msg = Some (Inr m, a', cs') \<Longrightarrow> int (length msg) \<le> MaxBatchCount (conf a)
   \<Longrightarrow> int (length m) \<le> MaxBatchCount (conf a)"
proof (induction "targetKeys a" arbitrary: a cs msg)
  case Nil
  then have "\<not> loopGoesOn e a cs msg" by (simp add: loopGoesOn_def)
  with Nil show ?case by (simp add: readFromMgrLoop_stop)
next
  case (Cons k0 ks0)
  have tk: "targetKeys a = k0 # ks0" using Cons(2) by simp
  from Cons(3) show ?case
  proof (cases rule: readFromMgrLoop_cases)
    case stop
    with Cons(4) show ?thesis by simp
  next
    case (drop k ks x err)
    with tk Cons(1)[of "a\<lparr> targetKeys := ks, readKeys := readKeys a @ [k] \<rparr>"] Cons(4)
    show ?thesis by simp
  next
    case (retry k ks x err)
    with Cons(4) show ?thesis by (simp split: if_splits)
  next
    case (part k ks x bytes)
    from part(1) have "int (length msg) < MaxBatchCount (conf a)" by (simp add: loopGoesOn_def)
    with part tk Cons(1)[of "a\<lparr> targetKeys := ks, readKeys := readKeys a @ [k] \<rparr>"]
    show ?thesis by simp
  qed
qed

subsection \<open>One SQS event\<close>

lemma update_last:
  assumes "zs \<noteq> []"
  shows "(ys @ zs)[length (ys @ zs) - 1 := g ((ys @ zs) ! (length (ys @ zs) - 1))]
         = ys @ butlast zs @ [g (last zs)]"
proof -
  from assms obtain zs' z where zs: "zs = zs' @ [z]" by (cases zs rule: rev_cases) auto
  have "((ys @ zs') @ [z])[length (ys @ zs') := g z] = (ys @ zs') @ [g z]"
    by (rule list_update_length)
  then show ?thesis by (simp add: zs nth_append)
qed

lemma mark_last:
  assumes "xs \<noteq> []"
  shows "(ys @ map f (enumerate 0 xs))[length (ys @ map f (enumerate 0 xs)) - 1 :=
            g ((ys @ map f (enumerate 0 xs)) ! (length (ys @ map f (enumerate 0 xs)) - 1))]
         = ys @ map (\<lambda>it. if Suc (fst it) = length xs then g (f it) else f it) (enumerate 0 xs)"
proof -
  from assms obtain xs' x where xs: "xs = xs' @ [x]" by (cases xs rule: rev_cases) auto
  have en: "enumerate 0 xs = enumerate 0 xs' @ [(length xs', x)]"
    by (simp add: xs enumerate_append_eq)
  have small: "\<forall>it \<in> set (enumerate 0 xs'). fst it < length xs'"
    by (auto simp: in_set_enumerate_eq)
  have "map (\<lambda>it. if Suc (fst it) = length xs then g (f it) else f it) (enumerate 0 xs')
        = map f (enumerate 0 xs')"
    using small by (intro map_cong) (auto simp: xs)
  then have rhs: "map (\<lambda>it. if Suc (fst it) = length xs then g (f it) else f it) (enumerate 0 xs)
        = map f (enumerate 0 xs') @ [g (f (length xs', x))]"
    by (simp add: en) (simp add: xs)
  have ne: "map f (enumerate 0 xs) \<noteq> []" by (simp add: en)
  show ?thesis
    by (subst update_last[OF ne]) (simp add: rhs, simp add: en)
qed

lemma appendTargets_string:
  "gabsSearch e gObj (sqsBodyPath a) = JString t \<Longrightarrow>
   appendTargets e gObj h (a, d) =
     (if prefix (Prefix (conf a)) t
      then (a\<lparr> targetKeys := targetKeys a @
               [\<lparr> s3Key = t,
                  s3Bucket = (if eventBuckets e a gObj = [] then [] else hd (eventBuckets e a gObj)),
                  attempts = Retries (conf a), sqsHandle = Some h \<rparr>] \<rparr>, d)
      else (a, d))"
  by (cases "eventBuckets e a gObj") (auto simp: appendTargets_def eventBuckets_def Let_def)

lemma appendTargets_array:
  assumes "gabsSearch e gObj (sqsBodyPath a) = JArray t"
  shows "appendTargets e gObj h (a, d) =
     (let newTargets = filter (prefix (Prefix (conf a))) (digStrsFromSlices t)
      in if newTargets = [] then (a, d @ [h])
         else (a\<lparr> targetKeys := targetKeys a @
                  map (eventKey a (eventBuckets e a gObj) h (length newTargets)) (enumerate 0 newTargets) \<rparr>, d))"
proof (cases "filter (prefix (Prefix (conf a))) (digStrsFromSlices t) = []")
  case True
  with assms show ?thesis by (simp add: appendTargets_def Let_def)
next
  case False
  have eq: "(\<lambda>it. if Suc (fst it) = n then (f it)\<lparr> sqsHandle := Some h \<rparr> else f it) = eventKey a (eventBuckets e a gObj) h n"
    if "f = (\<lambda>(i, target). \<lparr> s3Key = target, s3Bucket = (if length (eventBuckets e a gObj) > i then eventBuckets e a gObj ! i else []),
                             attempts = Retries (conf a), sqsHandle = None \<rparr>)" for f n
    unfolding that by (auto simp: eventKey_def fun_eq_iff)
  from assms False show ?thesis
    unfolding appendTargets_def Let_def
    apply (simp only: prod.case json.case if_False length_0_conv eventBuckets_def[symmetric])
    apply (subst mark_last[OF False])
    apply (subst eq[OF refl])
    apply simp
    done
qed

lemma appendTargets_other:
  "(\<forall>t. gabsSearch e gObj (sqsBodyPath a) \<noteq> JString t) \<Longrightarrow>
   (\<forall>t. gabsSearch e gObj (sqsBodyPath a) \<noteq> JArray t) \<Longrightarrow>
   appendTargets e gObj h (a, d) = (a, d)"
  by (cases "gabsSearch e gObj (sqsBodyPath a)") (auto simp: appendTargets_def Let_def)

lemma appendTargets_frame:
  "appendTargets e gObj h (a, d) = (a', d') \<Longrightarrow> a' = a\<lparr> targetKeys := targetKeys a' \<rparr>"
proof (cases "gabsSearch e gObj (sqsBodyPath a)")
  case (JString t)
  assume "appendTargets e gObj h (a, d) = (a', d')"
  then show ?thesis unfolding appendTargets_string[OF JString] by (auto split: if_splits)
next
  case (JArray t)
  assume "appendTargets e gObj h (a, d) = (a', d')"
  then show ?thesis unfolding appendTargets_array[OF JArray] by (auto simp: Let_def split: if_splits)
qed (auto simp: appendTargets_other)

lemma handleSQSMessage_frame:
  "handleSQSMessage e m (a, d) = (a', d') \<Longrightarrow> a' = a\<lparr> targetKeys := targetKeys a' \<rparr>"
  by (auto simp: handleSQSMessage_def Let_def dest: appendTargets_frame split: option.splits sum.splits)

lemma fold_handleSQSMessage_frame:
  "fold (handleSQSMessage e) msgs (a, d) = (a', d') \<Longrightarrow> a' = a\<lparr> targetKeys := targetKeys a' \<rparr>"
proof (induction msgs arbitrary: a d)
  case Nil
  then show ?case by simp
next
  case (Cons m msgs)
  obtain a1 d1 where s: "handleSQSMessage e m (a, d) = (a1, d1)" by (cases "handleSQSMessage e m (a, d)")
  from Cons(2) have "fold (handleSQSMessage e) msgs (a1, d1) = (a', d')" by (simp add: s)
  from Cons(1)[OF this] have "a' = a1\<lparr> targetKeys := targetKeys a' \<rparr>" .
  moreover from handleSQSMessage_frame[OF s] have "a1 = a\<lparr> targetKeys := targetKeys a1 \<rparr>" .
  ultimately have "a' = (a\<lparr> targetKeys := targetKeys a1 \<rparr>)\<lparr> targetKeys := targetKeys a' \<rparr>" by simp
  then show ?case by simp
qed

lemma readSQSEvents_frame:
  "readSQSEvents e (a, cs) = Some (r, a', cs') \<Longrightarrow>
     sqs a \<noteq> None \<and> a' = a\<lparr> targetKeys := targetKeys a' \<rparr>"
  by (auto simp: readSQSEvents_def Let_def dest: fold_handleSQSMessage_frame
           split: option.splits sum.splits prod.splits)

lemma fetchTargets_frame:
  "fetchTargets e (a, cs) = Some (r, a', cs') \<Longrightarrow>
     a' = a\<lparr> targetKeys := targetKeys a' \<rparr> \<and> (targetKeys a' \<noteq> targetKeys a \<longrightarrow> sqs a \<noteq> None)"
  by (auto simp: fetchTargets_def dest: readSQSEvents_frame split: if_splits)

lemma fetchTargets_pending:
  "targetKeys a \<noteq> [] \<Longrightarrow> fetchTargets e (a, cs) = Some (None, a, cs)"
  by (simp add: fetchTargets_def)

lemma fetchTargets_conf:
  "fetchTargets e (a, cs) = Some (r, a', cs') \<Longrightarrow> conf a' = conf a"
proof -
  assume "fetchTargets e (a, cs) = Some (r, a', cs')"
  from fetchTargets_frame[OF this] have "a' = a\<lparr> targetKeys := targetKeys a' \<rparr>" by blast
  then have "conf a' = conf (a\<lparr> targetKeys := targetKeys a' \<rparr>)" by simp
  then show ?thesis by simp
qed

lemma readSQSEvents_timeout:
  assumes "sqs a \<noteq> None" "receiveMessage e (length cs) = Inr msgs"
    "targetKeys a = []" "targetKeys (fst (fold (handleSQSMessage e) msgs (a, []))) = []"
  shows "\<exists>cs'. readSQSEvents e (a, cs) = Some (Some ErrTimeout, a, cs')"
proof -
  obtain a1 duds where f: "fold (handleSQSMessage e) msgs (a, []) = (a1, duds)"
    by (cases "fold (handleSQSMessage e) msgs (a, [])")
  from fold_handleSQSMessage_frame[OF f] have "a1 = a\<lparr> targetKeys := targetKeys a1 \<rparr>" .
  moreover from assms(4) f have "targetKeys a1 = []" by simp
  ultimately have a1: "a1 = a" using assms(3) by simp
  let ?cs1 = "cs @ [ReceiveMessageCall (SQSURL (conf a)) (SQSMaxMessages (conf a)) (timeout a)]"
  from assms(1) have "sqs a \<noteq> None \<or> duds = []" by simp
  from dmb_char[OF this, of ?cs1] obtain bs where
    "deleteMessageBatches a duds ?cs1 = Some (?cs1 @ map (DeleteMessageBatchCall (SQSURL (conf a))) bs)"
    by blast
  with assms(1,2,3) f a1 show ?thesis
    by (auto simp: readSQSEvents_def Let_def)
qed

subsection \<open>Read as a whole\<close>

lemma Read_loop:
  assumes "Read e (a, cs) = Some (res, a', cs')" "session a \<noteq> None"
  obtains err where "fetchTargets e (a, cs) = Some (Some err, a', cs')" "res = Inl err"
  | "fetchTargets e (a, cs) = Some (None, a', cs')" "targetKeys a' = []" "res = Inl ErrTimeout"
  | a1 cs1 where "fetchTargets e (a, cs) = Some (None, a1, cs1)" "targetKeys a1 \<noteq> []"
      "readMethod a = ReadDirect" "readLoop e a1 cs1 [] = Some (res, a', cs')"
  | a1 cs1 where "fetchTargets e (a, cs) = Some (None, a1, cs1)" "targetKeys a1 \<noteq> []"
      "readMethod a = ReadFromMgr" "readFromMgrLoop e a1 cs1 [] = Some (res, a', cs')"
proof (cases "readMethod a")
  case ReadDirect
  with assms have r: "read e (a, cs) = Some (res, a', cs')" by (simp add: Read_def)
  show ?thesis
  proof (cases "fetchTargets e (a, cs)")
    case None
    with r assms(2) show ?thesis by (simp add: read_def)
  next
    case (Some t)
    obtain r1 a1 cs1 where t: "t = (r1, a1, cs1)" by (cases t)
    show ?thesis
    proof (cases r1)
      case (Some err)
      with r assms(2) \<open>fetchTargets e (a, cs) = Some t\<close> t that(1)[of err] show ?thesis
        by (simp add: read_def)
    next
      case None
      show ?thesis
      proof (cases "targetKeys a1 = []")
        case True
        with r assms(2) \<open>fetchTargets e (a, cs) = Some t\<close> t None that(2) show ?thesis
          by (simp add: read_def)
      next
        case False
        with r assms(2) \<open>fetchTargets e (a, cs) = Some t\<close> t None that(3)[of a1 cs1] ReadDirect
        show ?thesis by (simp add: read_def)
      qed
    qed
  qed
next
  case ReadFromMgr
  with assms have r: "readFromMgr e (a, cs) = Some (res, a', cs')" by (simp add: Read_def)
  show ?thesis
  proof (cases "fetchTargets e (a, cs)")
    case None
    with r assms(2) show ?thesis by (simp add: readFromMgr_def)
  next
    case (Some t)
    obtain r1 a1 cs1 where t: "t = (r1, a1, cs1)" by (cases t)
    show ?thesis
    proof (cases r1)
      case (Some err)
      with r assms(2) \<open>fetchTargets e (a, cs) = Some t\<close> t that(1)[of err] show ?thesis
        by (simp add: readFromMgr_def)
    next
      case None
      show ?thesis
      proof (cases "targetKeys a1 = []")
        case True
        with r assms(2) \<open>fetchTargets e (a, cs) = Some t\<close> t None that(2) show ?thesis
          by (simp add: readFromMgr_def)
      next
        case False
        with r assms(2) \<open>fetchTargets e (a, cs) = Some t\<close> t None that(4)[of a1 cs1] ReadFromMgr
        show ?thesis by (simp add: readFromMgr_def)
      qed
    qed
  qed
qed

lemma Read_not_connected:
  "session a = None \<Longrightarrow> Read e (a, cs) = Some (Inl ErrNotConnected, a, cs)"
  by (simp add: Read_def read_def readFromMgr_def split: read_method.splits)

lemma Read_order:
  assumes "targetKeys a \<noteq> []" "Read e (a, cs) = Some (res, a', cs')"
  shows "\<exists>n. readKeys a' = readKeys a @ take n (targetKeys a) \<and>
             map keyId (targetKeys a') = map keyId (drop n (targetKeys a))"
proof (cases "session a = None")
  case True
  with assms(2) have "a' = a" by (simp add: Read_not_connected)
  then show ?thesis by (auto intro: exI[of _ 0])
next
  case False
  note f = fetchTargets_pending[OF assms(1), of e cs]
  from assms(2) False show ?thesis
  proof (cases rule: Read_loop)
    case (1 err)
    with f show ?thesis by simp
  next
    case 2
    with f assms(1) show ?thesis by simp
  next
    case (3 a1 cs1)
    with f have "readLoop e a cs [] = Some (res, a', cs')" by simp
    from readLoop_frame[OF this] show ?thesis by blast
  next
    case (4 a1 cs1)
    with f have "readFromMgrLoop e a cs [] = Some (res, a', cs')" by simp
    from readFromMgrLoop_frame[OF this] show ?thesis by blast
  qed
qed

lemma Read_bound:
  assumes "0 \<le> MaxBatchCount (conf a)" "Read e (a, cs) = Some (Inr msg, a', cs')"
  shows "int (length msg) \<le> MaxBatchCount (conf a)"
proof (cases "session a = None")
  case True
  with assms(2) show ?thesis by (simp add: Read_not_connected)
next
  case False
  from assms(2) False show ?thesis
  proof (cases rule: Read_loop)
    case (1 err)
    then show ?thesis by simp
  next
    case 2
    then show ?thesis by simp
  next
    case (3 a1 cs1)
    from fetchTargets_conf[OF 3(1)] have c: "conf a1 = conf a" .
    from readLoop_bound[OF 3(4)] assms(1) c show ?thesis by simp
  next
    case (4 a1 cs1)
    from fetchTargets_conf[OF 4(1)] have c: "conf a1 = conf a" .
    from readFromMgrLoop_bound[OF 4(4)] assms(1) c show ?thesis by simp
  qed
qed

subsection \<open>The clients in every reachable state\<close>

lemma clientsReady_frame:
  assumes "clientsReady a" "session a \<noteq> None"
    and "a' = a\<lparr> readKeys := rk, targetKeys := tk \<rparr>"
    and "(\<exists>k \<in> set (rk @ tk). sqsHandle k \<noteq> None) \<longrightarrow> sqs a \<noteq> None"
  shows "clientsReady a'"
  using assms unfolding clientsReady_def by simp

lemma loop_handles:
  assumes "readKeys a' = readKeys a @ take n (targetKeys a)"
    and "map keyId (targetKeys a') = map keyId (drop n (targetKeys a))"
  shows "map keyId (readKeys a' @ targetKeys a') = map keyId (readKeys a @ targetKeys a)"
proof -
  have "map keyId (readKeys a' @ targetKeys a')
        = map keyId (readKeys a) @ map keyId (take n (targetKeys a)) @ map keyId (drop n (targetKeys a))"
    using assms by simp
  also have "\<dots> = map keyId (readKeys a @ (take n (targetKeys a) @ drop n (targetKeys a)))"
    by (simp only: map_append)
  finally show ?thesis by simp
qed

lemma handles_keyId:
  "map keyId xs = map keyId ys \<Longrightarrow>
     (\<exists>k \<in> set xs. sqsHandle k \<noteq> None) = (\<exists>k \<in> set ys. sqsHandle k \<noteq> None)"
proof -
  assume eq: "map keyId xs = map keyId ys"
  have "(\<exists>k \<in> set zs. sqsHandle k \<noteq> None) = (\<exists>i \<in> set (map keyId zs). snd (snd i) \<noteq> None)" for zs
    by (auto simp: keyId_def)
  then show ?thesis using eq by metis
qed

lemma loop_clientsReady:
  assumes "clientsReady a" "session a \<noteq> None"
    and fr: "a' = a\<lparr> readKeys := readKeys a', targetKeys := targetKeys a' \<rparr> \<and>
     (\<exists>n. readKeys a' = readKeys a @ take n (targetKeys a) \<and>
          map keyId (targetKeys a') = map keyId (drop n (targetKeys a)))"
  shows "clientsReady a'"
proof -
  from fr obtain n where a: "a' = a\<lparr> readKeys := readKeys a', targetKeys := targetKeys a' \<rparr>"
    and n: "readKeys a' = readKeys a @ take n (targetKeys a)"
           "map keyId (targetKeys a') = map keyId (drop n (targetKeys a))" by blast
  from handles_keyId[OF loop_handles[OF n]] assms(1)
  have "(\<exists>k \<in> set (readKeys a' @ targetKeys a'). sqsHandle k \<noteq> None) \<longrightarrow> sqs a \<noteq> None"
    unfolding clientsReady_def by blast
  from clientsReady_frame[OF assms(1,2) a this] show ?thesis .
qed

lemma fetch_clientsReady:
  assumes "clientsReady a" "session a \<noteq> None" "fetchTargets e (a, cs) = Some (r, a', cs')"
  shows "clientsReady a'"
proof -
  from fetchTargets_frame[OF assms(3)] have a: "a' = a\<lparr> targetKeys := targetKeys a' \<rparr>"
    and s: "targetKeys a' \<noteq> targetKeys a \<longrightarrow> sqs a \<noteq> None" by blast+
  show ?thesis
  proof (cases "targetKeys a' = targetKeys a")
    case True
    with a have "a' = a" by simp
    with assms(1) show ?thesis by simp
  next
    case False
    with s have "sqs a \<noteq> None" by simp
    with assms(1,2) show ?thesis by (subst a) (simp add: clientsReady_def)
  qed
qed

lemma read_clientsReady:
  assumes "clientsReady a" "read e (a, cs) = Some (r, a', cs')"
  shows "clientsReady a'"
proof (cases "session a = None")
  case True
  with assms show ?thesis by (simp add: read_def)
next
  case False
  from assms(2) False obtain r1 a1 cs1 where f: "fetchTargets e (a, cs) = Some (r1, a1, cs1)"
    by (auto simp: read_def split: option.splits)
  from fetch_clientsReady[OF assms(1) False f] have c1: "clientsReady a1" .
  from fetchTargets_frame[OF f] have "a1 = a\<lparr> targetKeys := targetKeys a1 \<rparr>" by blast
  then have "session a1 = session (a\<lparr> targetKeys := targetKeys a1 \<rparr>)" by simp
  then have "session a1 = session a" by simp
  with False have s1: "session a1 \<noteq> None" by simp
  from assms(2) False f consider "a' = a1" | "readLoop e a1 cs1 [] = Some (r, a', cs')"
    by (auto simp: read_def split: option.splits if_splits)
  then show ?thesis
  proof cases
    case 1
    with c1 show ?thesis by simp
  next
    case 2
    from loop_clientsReady[OF c1 s1 readLoop_frame[OF 2]] show ?thesis .
  qed
qed

lemma readFromMgr_clientsReady:
  assumes "clientsReady a" "readFromMgr e (a, cs) = Some (r, a', cs')"
  shows "clientsReady a'"
proof (cases "session a = None")
  case True
  with assms show ?thesis by (simp add: readFromMgr_def)
next
  case False
  from assms(2) False obtain r1 a1 cs1 where f: "fetchTargets e (a, cs) = Some (r1, a1, cs1)"
    by (auto simp: readFromMgr_def split: option.splits)
  from fetch_clientsReady[OF assms(1) False f] have c1: "clientsReady a1" .
  from fetchTargets_frame[OF f] have "a1 = a\<lparr> targetKeys := targetKeys a1 \<rparr>" by blast
  then have "session a1 = session (a\<lparr> targetKeys := targetKeys a1 \<rparr>)" by simp
  then have "session a1 = session a" by simp
  with False have s1: "session a1 \<noteq> None" by simp
  from assms(2) False f consider "a' = a1" | "readFromMgrLoop e a1 cs1 [] = Some (r, a', cs')"
    by (auto simp: readFromMgr_def split: option.splits if_splits)
  then show ?thesis
  proof cases
    case 1
    with c1 show ?thesis by simp
  next
    case 2
    from loop_clientsReady[OF c1 s1 readFromMgrLoop_frame[OF 2]] show ?thesis .
  qed
qed

lemma Read_clientsReady:
  "clientsReady a \<Longrightarrow> Read e (a, cs) = Some (r, a', cs') \<Longrightarrow> clientsReady a'"
  by (auto simp: Read_def dest: read_clientsReady readFromMgr_clientsReady split: read_method.splits)

lemma NewAmazonS3_clientsReady:
  "NewAmazonS3 e c = Inr a \<Longrightarrow> clientsReady a"
  by (auto simp: NewAmazonS3_def clientsReady_def Let_def split: sum.splits if_splits)

lemma Connect_clientsReady:
  "clientsReady a \<Longrightarrow> Connect e (a, cs) = (r, a', cs') \<Longrightarrow> clientsReady a'"
  by (auto simp: Connect_def clientsReady_def Let_def split: sum.splits if_splits option.splits)

lemma Acknowledge_clientsReady:
  "clientsReady a \<Longrightarrow> Acknowledge err (a, cs) = Some (r, a', cs') \<Longrightarrow> clientsReady a'"
  by (auto simp: Acknowledge_def clientsReady_def split: option.splits)

lemma reachable_clientsReady:
  "reachable st \<Longrightarrow> clientsReady (fst st)"
proof (induction rule: reachable.induct)
  case (reach_new e c a)
  then show ?case by (simp add: NewAmazonS3_clientsReady)
next
  case (reach_connect st e r st')
  from Connect_clientsReady[of "fst st" e "snd st" r "fst st'" "snd st'"] reach_connect
  show ?case by simp
next
  case (reach_read st e res st')
  from Read_clientsReady[of "fst st" e "snd st" res "fst st'" "snd st'"] reach_read
  show ?case by simp
next
  case (reach_acknowledge st err r st')
  from Acknowledge_clientsReady[of "fst st" err "snd st" r "fst st'" "snd st'"] reach_acknowledge
  show ?case by simp
qed

lemma clientsReady_ack:
  assumes "clientsReady a"
  shows "(DeleteObjects (conf a) \<and> readKeys a \<noteq> [] \<longrightarrow> s3 a \<noteq> None)"
    and "sqs a \<noteq> None \<or> List.map_filter sqsHandle (readKeys a) = []"
proof -
  from assms show "DeleteObjects (conf a) \<and> readKeys a \<noteq> [] \<longrightarrow> s3 a \<noteq> None"
    by (auto simp: clientsReady_def)
  show "sqs a \<noteq> None \<or> List.map_filter sqsHandle (readKeys a) = []"
  proof (cases "\<exists>k \<in> set (readKeys a). sqsHandle k \<noteq> None")
    case True
    with assms show ?thesis by (auto simp: clientsReady_def)
  next
    case False
    then have "List.map_filter sqsHandle (readKeys a) = []"
      by (induction "readKeys a") (auto simp: List.map_filter_def)
    then show ?thesis by simp
  qed
qed

lemma Acknowledge_nil_ready:
  assumes "clientsReady a"
  shows "\<exists>bs. Acknowledge None (a, cs) =
             Some (None, a\<lparr> readKeys := [] \<rparr>,
                   cs @ (if DeleteObjects (conf a)
                         then map (\<lambda>k. DeleteObjectCall (objectBucket a k) (s3Key k)) (readKeys a)
                         else [])
                      @ map (DeleteMessageBatchCall (SQSURL (conf a))) bs) \<and>
             concat bs = List.map_filter sqsHandle (readKeys a) \<and>
             (\<forall>b \<in> set bs. b \<noteq> [] \<and> length b \<le> 10)"
proof -
  let ?dels = "if DeleteObjects (conf a)
               then map (\<lambda>k. DeleteObjectCall (objectBucket a k) (s3Key k)) (readKeys a) else []"
  let ?hs = "List.map_filter sqsHandle (readKeys a)"
  from clientsReady_ack(1)[OF assms]
  have k: "ackKeys a (readKeys a) ([], cs) = Some (?hs, cs @ ?dels)"
    by (auto simp: ackKeys_char objectBucket_def)
  from dmb_char[OF clientsReady_ack(2)[OF assms], of "cs @ ?dels"]
  obtain bs where bs: "deleteMessageBatches a ?hs (cs @ ?dels)
        = Some ((cs @ ?dels) @ map (DeleteMessageBatchCall (SQSURL (conf a))) bs)"
     "concat bs = ?hs" "\<forall>b \<in> set bs. b \<noteq> [] \<and> length b \<le> 10" by blast
  have "Acknowledge None (a, cs) =
          Some (None, a\<lparr> readKeys := [] \<rparr>, cs @ ?dels @ map (DeleteMessageBatchCall (SQSURL (conf a))) bs)"
    unfolding Acknowledge_def by (simp add: k bs(1))
  with bs(2,3) show ?thesis by blast
qed

subsection \<open>Keys and handles of one SQS event\<close>

lemma handles_of_event:
  assumes "0 < n" "length ts = n"
  shows "map sqsHandle (map (eventKey a bks h n) (enumerate 0 ts)) = replicate (n - 1) None @ [Some h]"
proof (rule nth_equalityI)
  from assms show "length (map sqsHandle (map (eventKey a bks h n) (enumerate 0 ts)))
      = length (replicate (n - 1) None @ [Some h])" by simp
next
  fix i assume "i < length (map sqsHandle (map (eventKey a bks h n) (enumerate 0 ts)))"
  with assms have i: "i < n" by simp
  show "map sqsHandle (map (eventKey a bks h n) (enumerate 0 ts)) ! i
        = (replicate (n - 1) None @ [Some h]) ! i"
  proof (cases "Suc i = n")
    case True
    then have "i = n - 1" by simp
    with i assms True show ?thesis
      by (simp add: nth_append nth_enumerate_eq eventKey_def)
  next
    case False
    with i have "i < n - 1" by simp
    with i assms False show ?thesis
      by (simp add: nth_append nth_enumerate_eq eventKey_def)
  qed
qed

lemma keys_of_event:
  "map s3Key (map (eventKey a bks h n) (enumerate 0 ts)) = ts"
  by (rule nth_equalityI) (simp_all add: nth_enumerate_eq eventKey_def)

lemma handleSQSMessage_parsed:
  "Body m = Some body \<Longrightarrow> gabsParseJSON e body = Inr g0 \<Longrightarrow> openEnvelope e a g0 = Some gObj \<Longrightarrow>
   handleSQSMessage e m (a, d) =
     appendTargets e gObj \<lparr> Id = MessageId m, ReceiptHandle = ReceiptHandleM m \<rparr> (a, d)"
  by (simp add: handleSQSMessage_def Let_def)

lemma Acknowledge_nil_entries:
  assumes "clientsReady a" "Acknowledge None (a, cs) = Some (r, a', cs')"
  shows "(\<exists>es. DeleteMessageBatchCall (SQSURL (conf a)) es \<in> set (drop (length cs) cs') \<and> h \<in> set es)
         \<longleftrightarrow> (\<exists>k \<in> set (readKeys a). sqsHandle k = Some h)"
proof -
  from Acknowledge_nil_ready[OF assms(1), of cs] obtain bs where
    A: "Acknowledge None (a, cs) =
             Some (None, a\<lparr> readKeys := [] \<rparr>,
                   cs @ (if DeleteObjects (conf a)
                         then map (\<lambda>k. DeleteObjectCall (objectBucket a k) (s3Key k)) (readKeys a)
                         else [])
                      @ map (DeleteMessageBatchCall (SQSURL (conf a))) bs)"
    and B: "concat bs = List.map_filter sqsHandle (readKeys a)" by blast
  from A assms(2) have cs': "drop (length cs) cs' =
      (if DeleteObjects (conf a)
       then map (\<lambda>k. DeleteObjectCall (objectBucket a k) (s3Key k)) (readKeys a) else [])
      @ map (DeleteMessageBatchCall (SQSURL (conf a))) bs" by auto
  have "(\<exists>es. DeleteMessageBatchCall (SQSURL (conf a)) es \<in> set (drop (length cs) cs') \<and> h \<in> set es)
        \<longleftrightarrow> (\<exists>es \<in> set bs. h \<in> set es)"
    unfolding cs' by auto
  also have "\<dots> \<longleftrightarrow> h \<in> set (concat bs)" by auto
  also have "\<dots> \<longleftrightarrow> (\<exists>k \<in> set (readKeys a). sqsHandle k = Some h)"
    unfolding B by (force simp: List.map_filter_def)
  finally show ?thesis .
qed

subsection \<open>The preserver\<close>

lemma preserverRead_unacked:
  assumes "preserverRead lib p = (Inr m, p1)"
  shows "unAcked p1 = Some m \<and> retained p1 = None"
  using assms
  by (auto simp: preserverRead_def split: option.splits prod.splits sum.splits)

lemma preserver_reemits:
  assumes "preserverRead lib p = (Inr m, p1)"
  shows "preserverAcknowledge lib (Some err) p1 = (None, p1\<lparr> retained := Some m, unAcked := None \<rparr>)"
    and "preserverRead lib (p1\<lparr> retained := Some m, unAcked := None \<rparr>) = (Inr m, p1)"
  using preserverRead_unacked[OF assms]
  by (simp_all add: preserverAcknowledge_def preserverRead_def)

subsection \<open>The two runs\<close>

lemma concat_single:
  assumes "concat bs = [x]" "\<forall>b \<in> set bs. b \<noteq> []"
  shows "bs = [[x]]"
proof (cases bs)
  case Nil
  with assms(1) show ?thesis by simp
next
  case (Cons b bs')
  with assms(2) have ne: "b \<noteq> []" and rest: "\<forall>c \<in> set bs'. c \<noteq> []" by simp_all
  from assms(1) Cons have "b @ concat bs' = [x]" by simp
  with ne have b: "b = [x]" and c: "concat bs' = []"
    by (auto simp: append_eq_Cons_conv)
  from c rest have "bs' = []" by (cases bs') auto
  with b Cons show ?thesis by simp
qed

lemma sqs_new: "NewAmazonS3 sqsEnv sqsConf = Inr sqsNew"
  by (simp add: NewAmazonS3_def sqsEnv_def sqsConf_def sqsNew_def)

lemma sqs_connect: "Connect sqsEnv (sqsNew, []) = (None, sqsConnected, [GetSessionCall])"
  by (simp add: Connect_def sqsEnv_def sqsConf_def sqsNew_def sqsConnected_def)

lemma sqs_events:
  "readSQSEvents sqsEnv (sqsConnected, [GetSessionCall]) =
     Some (None, sqsConnected\<lparr> targetKeys := sqsKeys \<rparr>, sqsFetched)"
  by (simp add: readSQSEvents_def handleSQSMessage_def openEnvelope_def appendTargets_def
        deleteMessageBatches.simps sqsEnv_def sqsConf_def sqsNew_def sqsConnected_def sqsKeys_def
        sqsDropped_def sqsLast_def sqsFetched_def sqsHandle1_def Let_def enumerate_eq_zip)

lemma sqs_loop:
  "readLoop sqsEnv (sqsConnected\<lparr> targetKeys := sqsKeys \<rparr>) sqsFetched [] =
     Some (Inr [sqsPart ''in/c''], sqsConnected\<lparr> readKeys := sqsKeys \<rparr>, sqsLog)"
  by (simp add: readLoop.simps popTargetKey_def addS3Metadata_def sqsEnv_def sqsConf_def
        sqsConnected_def sqsNew_def sqsKeys_def sqsDropped_def sqsLast_def sqsFetched_def
        sqsLog_def sqsPart_def Let_def)

lemma sqs_reloop:
  "readLoop sqsEnv (sqsConnected\<lparr> targetKeys := sqsKeys \<rparr>) sqsLog [] =
     Some (Inr [sqsPart ''in/a'', sqsPart ''in/c''], sqsConnected\<lparr> readKeys := sqsKeys \<rparr>,
           sqsLog @ [GetObjectCall ''bkt'' ''in/a'', GetObjectCall ''bkt'' ''in/c''])"
  by (simp add: readLoop.simps popTargetKey_def addS3Metadata_def sqsEnv_def sqsConf_def
        sqsConnected_def sqsNew_def sqsKeys_def sqsDropped_def sqsLast_def sqsFetched_def
        sqsLog_def sqsPart_def Let_def)

lemma sqs_connected:
  "readMethod sqsConnected = ReadDirect" "session sqsConnected \<noteq> None"
  "targetKeys sqsConnected = []" "readKeys sqsConnected = []" "sqs sqsConnected \<noteq> None"
  "SQSURL (conf sqsConnected) = ''queue''" "MaxBatchCount (conf sqsConnected) = 2"
  by (simp_all add: sqsConnected_def sqsNew_def sqsConf_def)

lemma sqs_read:
  "Read sqsEnv (sqsConnected, [GetSessionCall]) =
     Some (Inr [sqsPart ''in/c''], sqsConnected\<lparr> readKeys := sqsKeys \<rparr>, sqsLog)"
proof -
  have k: "sqsKeys \<noteq> []" by (simp add: sqsKeys_def)
  show ?thesis
    by (simp add: Read_def read_def fetchTargets_def sqs_connected sqs_events sqs_loop k)
qed

lemma sqs_reread:
  "Read sqsEnv (sqsConnected\<lparr> targetKeys := sqsKeys \<rparr>, sqsLog) =
     Some (Inr [sqsPart ''in/a'', sqsPart ''in/c''], sqsConnected\<lparr> readKeys := sqsKeys \<rparr>,
           sqsLog @ [GetObjectCall ''bkt'' ''in/a'', GetObjectCall ''bkt'' ''in/c''])"
proof -
  have k: "sqsKeys \<noteq> []" by (simp add: sqsKeys_def)
  show ?thesis
    by (simp add: Read_def read_def fetchTargets_def sqs_connected sqs_reloop k)
qed

lemma sqs_reach_new: "reachable (sqsNew, [])"
  by (rule reach_new[OF sqs_new])

lemma sqs_reach_connected: "reachable (sqsConnected, [GetSessionCall])"
  by (rule reach_connect[OF sqs_reach_new sqs_connect])

lemma sqs_reach_read: "reachable (sqsConnected\<lparr> readKeys := sqsKeys \<rparr>, sqsLog)"
  by (rule reach_read[OF sqs_reach_connected sqs_read])

lemma list_new: "NewAmazonS3 listEnv listConf = Inr listNew"
  by (simp add: NewAmazonS3_def listEnv_def sqsEnv_def listConf_def listNew_def sqsNew_def)

lemma list_connect: "Connect listEnv (listNew, []) = (None, listConnected, listLog)"
  by (simp add: Connect_def listEnv_def sqsEnv_def listConf_def listNew_def sqsNew_def
        listConnected_def listKey_def listLog_def)

lemma list_connected:
  "readMethod listConnected = ReadDirect" "session listConnected \<noteq> None"
  "targetKeys listConnected = [listKey]" "readKeys listConnected = []" "sqs listConnected = None"
  "SQSURL (conf listConnected) = []" "MaxBatchCount (conf listConnected) = 1"
  by (simp_all add: listConnected_def listNew_def sqsNew_def listConf_def)

lemma list_loop:
  "readLoop listEnv listConnected listLog [] =
     Some (Inr [], listConnected\<lparr> targetKeys := [], readKeys := [listKey] \<rparr>,
           listLog @ [GetObjectCall ''bkt'' ''k1''])"
  by (simp add: readLoop.simps popTargetKey_def listEnv_def sqsEnv_def listConf_def
        listConnected_def listNew_def sqsNew_def listKey_def listLog_def Let_def)

lemma list_read:
  "Read listEnv (listConnected, listLog) =
     Some (Inr [], listConnected\<lparr> targetKeys := [], readKeys := [listKey] \<rparr>,
           listLog @ [GetObjectCall ''bkt'' ''k1''])"
  by (simp add: Read_def read_def fetchTargets_def list_connected list_loop)

lemma list_reach_connected: "reachable (listConnected, listLog)"
  by (rule reach_connect[OF reach_new[OF list_new] list_connect])

lemma list_reach_read:
  "reachable (listConnected\<lparr> targetKeys := [], readKeys := [listKey] \<rparr>,
              listLog @ [GetObjectCall ''bkt'' ''k1''])"
  by (rule reach_read[OF list_reach_connected list_read])

subsection \<open>The decompress processor\<close>

lemma processParts_fst:
  "fst (processParts d n i ps (acc, st)) =
     acc @ concat (map (\<lambda>(j, part).
                          if isTargetPart d n j
                          then (case decomp d part of Inr newPart \<Rightarrow> [newPart] | Inl err \<Rightarrow> [])
                          else [part])
                       (enumerate i ps))"
  by (induction ps arbitrary: i acc st)
     (auto simp: isTargetPart_def Let_def split: sum.splits)

lemma ProcessMessage_kept:
  "fst (ProcessMessage d msg) = (if keptParts d msg = [] then [] else [keptParts d msg])"
  "fst (snd (ProcessMessage d msg)) = (if keptParts d msg = [] then Some (SimpleResponse None) else None)"
proof -
  obtain newParts stats where p: "processParts d (length msg) 0 msg ([], [''processor.decompress.count'']) = (newParts, stats)"
    by (cases "processParts d (length msg) 0 msg ([], [''processor.decompress.count''])")
  from processParts_fst[of d "length msg" 0 msg "[]" "[''processor.decompress.count'']"] p
  have "newParts = keptParts d msg" by (simp add: keptParts_def)
  with p show "fst (ProcessMessage d msg) = (if keptParts d msg = [] then [] else [keptParts d msg])"
    "fst (snd (ProcessMessage d msg)) = (if keptParts d msg = [] then Some (SimpleResponse None) else None)"
    by (simp_all add: ProcessMessage_def)
qed

lemma keptParts_empty:
  "keptParts d msg = [] \<longleftrightarrow>
     (\<forall>i < length msg. isTargetPart d (length msg) i \<and> isl (decomp d (msg ! i)))"
proof -
  have "keptParts d msg = [] \<longleftrightarrow>
     (\<forall>it \<in> set (enumerate 0 msg). isTargetPart d (length msg) (fst it) \<and> isl (decomp d (snd it)))"
    by (fastforce simp: keptParts_def split: if_splits sum.splits)
  also have "\<dots> \<longleftrightarrow> (\<forall>i < length msg. isTargetPart d (length msg) i \<and> isl (decomp d (msg ! i)))"
  proof
    assume l: "\<forall>it \<in> set (enumerate 0 msg). isTargetPart d (length msg) (fst it) \<and> isl (decomp d (snd it))"
    show "\<forall>i < length msg. isTargetPart d (length msg) i \<and> isl (decomp d (msg ! i))"
    proof (intro allI impI)
      fix i assume "i < length msg"
      then have "(i, msg ! i) \<in> set (enumerate 0 msg)" by (simp add: in_set_enumerate_eq)
      with l show "isTargetPart d (length msg) i \<and> isl (decomp d (msg ! i))" by fastforce
    qed
  next
    assume "\<forall>i < length msg. isTargetPart d (length msg) i \<and> isl (decomp d (msg ! i))"
    then show "\<forall>it \<in> set (enumerate 0 msg). isTargetPart d (length msg) (fst it) \<and> isl (decomp d (snd it))"
      by (auto simp: in_set_enumerate_eq)
  qed
  finally show ?thesis .
qed

lemma gz_kept:
  "keptParts gzDemo [''gz'', ''raw'', ''junk''] = [''plain'', ''raw'']"
  "keptParts gzDemo [''junk''] = []"
  by (simp_all add: keptParts_def isTargetPart_def gzDemo_def enumerate_eq_zip)

lemma sqs_ack:
  "Acknowledge None (sqsConnected\<lparr> readKeys := sqsKeys \<rparr>, sqsLog) =
     Some (None, sqsConnected\<lparr> readKeys := [] \<rparr>,
           sqsLog @ [DeleteObjectCall ''bkt'' ''in/a'', DeleteObjectCall ''bkt'' ''in/c'',
                     DeleteMessageBatchCall ''queue'' [sqsHandle1]])"
  by (simp add: Acknowledge_def deleteMessageBatches.simps sqsKeys_def sqsDropped_def sqsLast_def
        sqsConnected_def sqsNew_def sqsConf_def Let_def)

lemma sqs_parsed:
  "Body sqsMessage1 = Some ''event''"
  "gabsParseJSON sqsEnv ''event'' = Inr (JObject [])"
  "gabsParseJSON singleEnv ''event'' = Inr (JObject [])"
  "openEnvelope sqsEnv sqsConnected (JObject []) = Some (JObject [])"
  "openEnvelope singleEnv sqsConnected (JObject []) = Some (JObject [])"
  "\<lparr> Id = MessageId sqsMessage1, ReceiptHandle = ReceiptHandleM sqsMessage1 \<rparr> = sqsHandle1"
  by (simp_all add: sqsMessage1_def sqsEnv_def singleEnv_def openEnvelope_def sqsConnected_def
        sqsNew_def sqsHandle1_def)

section \<open>The claims\<close>

text \<open>
  C5. \<open>Connect\<close> is idempotent: once a \<open>Connect\<close> has succeeded, so that the session is set,
  a further \<open>Connect\<close> returns nil and leaves the reader as it is; it makes no call, so it
  neither lists the bucket again nor extends the pending target keys.
\<close>

theorem Connect_idempotent:
  "session a \<noteq> None \<Longrightarrow> Connect e (a, cs) = (None, a, cs)"
  by (simp add: Connect_def)

theorem Connect_idempotent_witness:
  "Connect listEnv (listNew, []) = (None, listConnected, listLog) \<and>
   session listConnected \<noteq> None \<and>
   Connect listEnv (listConnected, listLog) = (None, listConnected, listLog)"
  using Connect_idempotent [of listConnected listEnv listLog] list_connect list_connected(2)
  by simp

text \<open>
  C2. \<open>Acknowledge(err)\<close> with a non-nil error makes no call at all (the log of calls is
  unchanged, so there is no \<open>DeleteObject\<close> and no \<open>DeleteMessageBatch\<close>), puts the read keys,
  in the order they were read, in front of the pending target keys, empties the read set
  and returns nil. A \<open>Read\<close> that follows takes its keys from the front of that list: the
  keys it has read when it returns are an initial segment of the re-queued keys followed
  by the unread ones.
\<close>

theorem Acknowledge_error_requeues:
  "Acknowledge (Some err) (a, cs) =
     Some (None, a\<lparr> targetKeys := readKeys a @ targetKeys a, readKeys := [] \<rparr>, cs) \<and>
   (readKeys a \<noteq> [] \<longrightarrow>
    Read e (a\<lparr> targetKeys := readKeys a @ targetKeys a, readKeys := [] \<rparr>, cs) = Some (res, a', cs') \<longrightarrow>
    (\<exists>n. readKeys a' = take n (readKeys a @ targetKeys a)))"
proof (intro conjI impI)
  show "Acknowledge (Some err) (a, cs) =
     Some (None, a\<lparr> targetKeys := readKeys a @ targetKeys a, readKeys := [] \<rparr>, cs)"
    by (simp add: Acknowledge_def)
next
  let ?b = "a\<lparr> targetKeys := readKeys a @ targetKeys a, readKeys := [] \<rparr>"
  assume "readKeys a \<noteq> []" and r: "Read e (?b, cs) = Some (res, a', cs')"
  then have "targetKeys ?b \<noteq> []" by simp
  from Read_order[OF this r] show "\<exists>n. readKeys a' = take n (readKeys a @ targetKeys a)"
    by auto
qed

theorem Acknowledge_error_requeues_witness:
  "readKeys (sqsConnected\<lparr> readKeys := sqsKeys \<rparr>) \<noteq> [] \<and>
   Acknowledge (Some ErrTimeout) (sqsConnected\<lparr> readKeys := sqsKeys \<rparr>, sqsLog) =
     Some (None, sqsConnected\<lparr> targetKeys := sqsKeys \<rparr>, sqsLog) \<and>
   Read sqsEnv (sqsConnected\<lparr> targetKeys := sqsKeys \<rparr>, sqsLog) =
     Some (Inr [sqsPart ''in/a'', sqsPart ''in/c''], sqsConnected\<lparr> readKeys := sqsKeys \<rparr>,
           sqsLog @ [GetObjectCall ''bkt'' ''in/a'', GetObjectCall ''bkt'' ''in/c'']) \<and>
   (\<exists>n. readKeys (sqsConnected\<lparr> readKeys := sqsKeys \<rparr>) = take n sqsKeys)"
proof -
  let ?a = "sqsConnected\<lparr> readKeys := sqsKeys \<rparr>"
  have b: "?a\<lparr> targetKeys := readKeys ?a @ targetKeys ?a, readKeys := [] \<rparr>
           = sqsConnected\<lparr> targetKeys := sqsKeys \<rparr>"
    by (simp add: sqsConnected_def sqsNew_def)
  have ne: "readKeys ?a \<noteq> []" by (simp add: sqsKeys_def)
  note T = Acknowledge_error_requeues [of ErrTimeout ?a sqsLog sqsEnv
      "Inr [sqsPart ''in/a'', sqsPart ''in/c'']" ?a
      "sqsLog @ [GetObjectCall ''bkt'' ''in/a'', GetObjectCall ''bkt'' ''in/c'']"]
  from T have "Acknowledge (Some ErrTimeout) (?a, sqsLog) =
     Some (None, sqsConnected\<lparr> targetKeys := sqsKeys \<rparr>, sqsLog)"
    unfolding b by (rule conjunct1)
  moreover from T ne sqs_reread have "\<exists>n. readKeys ?a = take n (readKeys ?a @ targetKeys ?a)"
    unfolding b by blast
  then have "\<exists>n. readKeys ?a = take n sqsKeys"
    by (simp add: sqs_connected)
  ultimately show ?thesis using ne sqs_reread by blast
qed

text \<open>
  C1. In every state the reader can reach, \<open>Acknowledge(nil)\<close> returns nil with the read
  set emptied. Its calls are, in order, one \<open>DeleteObject\<close> per read key exactly when
  \<open>DeleteObjects\<close> is configured, then \<open>DeleteMessageBatch\<close> requests whose entries, taken
  together, are the non-nil SQS handles of the read keys in order, each request holding
  between one and ten entries. The read keys include the dropped ones: when the download
  of the first pending key fails and that was its last attempt, either read loop moves the
  key to the read set and goes on.
\<close>

theorem Acknowledge_nil_deletes:
  "(reachable (a, cs) \<longrightarrow>
      (\<exists>bs. Acknowledge None (a, cs) =
               Some (None, a\<lparr> readKeys := [] \<rparr>,
                     cs @ (if DeleteObjects (conf a)
                           then map (\<lambda>k. DeleteObjectCall (objectBucket a k) (s3Key k)) (readKeys a)
                           else [])
                        @ map (DeleteMessageBatchCall (SQSURL (conf a))) bs) \<and>
             concat bs = List.map_filter sqsHandle (readKeys a) \<and>
             (\<forall>b \<in> set bs. b \<noteq> [] \<and> length b \<le> 10))) \<and>
   (loopGoesOn e b ds msg \<longrightarrow> targetKeys b = k # ks \<longrightarrow> getObject e (length ds) = Inl err \<longrightarrow>
      attempts k = 1 \<longrightarrow> s3 b \<noteq> None \<longrightarrow>
      readLoop e b ds msg =
        readLoop e (b\<lparr> targetKeys := ks, readKeys := readKeys b @ [k] \<rparr>)
          (ds @ [GetObjectCall (objectBucket b k) (s3Key k)]) msg) \<and>
   (loopGoesOn e b ds msg \<longrightarrow> targetKeys b = k # ks \<longrightarrow> download e (length ds) = Inl err \<longrightarrow>
      attempts k = 1 \<longrightarrow> downloader b \<noteq> None \<longrightarrow>
      readFromMgrLoop e b ds msg =
        readFromMgrLoop e (b\<lparr> targetKeys := ks, readKeys := readKeys b @ [k] \<rparr>)
          (ds @ [DownloadCall (objectBucket b k) (s3Key k)]) msg)"
proof (intro conjI impI)
  assume "reachable (a, cs)"
  from reachable_clientsReady[OF this] have "clientsReady a" by simp
  from Acknowledge_nil_ready[OF this]
  show "\<exists>bs. Acknowledge None (a, cs) =
               Some (None, a\<lparr> readKeys := [] \<rparr>,
                     cs @ (if DeleteObjects (conf a)
                           then map (\<lambda>k. DeleteObjectCall (objectBucket a k) (s3Key k)) (readKeys a)
                           else [])
                        @ map (DeleteMessageBatchCall (SQSURL (conf a))) bs) \<and>
             concat bs = List.map_filter sqsHandle (readKeys a) \<and>
             (\<forall>b \<in> set bs. b \<noteq> [] \<and> length b \<le> 10)" .
next
  assume "loopGoesOn e b ds msg" "targetKeys b = k # ks" "getObject e (length ds) = Inl err"
    "attempts k = 1" "s3 b \<noteq> None"
  then show "readLoop e b ds msg =
        readLoop e (b\<lparr> targetKeys := ks, readKeys := readKeys b @ [k] \<rparr>)
          (ds @ [GetObjectCall (objectBucket b k) (s3Key k)]) msg"
    by (auto intro: readLoop_drop)
next
  assume "loopGoesOn e b ds msg" "targetKeys b = k # ks" "download e (length ds) = Inl err"
    "attempts k = 1" "downloader b \<noteq> None"
  then show "readFromMgrLoop e b ds msg =
        readFromMgrLoop e (b\<lparr> targetKeys := ks, readKeys := readKeys b @ [k] \<rparr>)
          (ds @ [DownloadCall (objectBucket b k) (s3Key k)]) msg"
    by (auto intro: readFromMgrLoop_drop)
qed

theorem Acknowledge_nil_deletes_witness:
  "reachable (sqsConnected\<lparr> readKeys := sqsKeys \<rparr>, sqsLog) \<and>
   Acknowledge None (sqsConnected\<lparr> readKeys := sqsKeys \<rparr>, sqsLog) =
     Some (None, sqsConnected\<lparr> readKeys := [] \<rparr>,
           sqsLog @ [DeleteObjectCall ''bkt'' ''in/a'', DeleteObjectCall ''bkt'' ''in/c'',
                     DeleteMessageBatchCall ''queue'' [sqsHandle1]]) \<and>
   loopGoesOn sqsEnv (sqsConnected\<lparr> targetKeys := sqsKeys \<rparr>) sqsFetched [] \<and>
   getObject sqsEnv (length sqsFetched) = Inl (ErrExternal ''NoSuchKey'') \<and>
   download sqsEnv (length sqsFetched) = Inl (ErrExternal ''NoSuchKey'') \<and>
   attempts sqsDropped = 1 \<and>
   readLoop sqsEnv (sqsConnected\<lparr> targetKeys := sqsKeys \<rparr>) sqsFetched [] =
     readLoop sqsEnv (sqsConnected\<lparr> targetKeys := [sqsLast], readKeys := [sqsDropped] \<rparr>)
       (sqsFetched @ [GetObjectCall ''bkt'' ''in/a'']) [] \<and>
   readFromMgrLoop sqsEnv (sqsConnected\<lparr> targetKeys := sqsKeys \<rparr>) sqsFetched [] =
     readFromMgrLoop sqsEnv (sqsConnected\<lparr> targetKeys := [sqsLast], readKeys := [sqsDropped] \<rparr>)
       (sqsFetched @ [DownloadCall ''bkt'' ''in/a'']) []"
proof -
  let ?a = "sqsConnected\<lparr> readKeys := sqsKeys \<rparr>"
  let ?b = "sqsConnected\<lparr> targetKeys := sqsKeys \<rparr>"
  note T = Acknowledge_nil_deletes [of ?a sqsLog sqsEnv ?b sqsFetched "[]" sqsDropped "[sqsLast]"
      "ErrExternal ''NoSuchKey''"]
  have on: "loopGoesOn sqsEnv ?b sqsFetched []"
    by (simp add: loopGoesOn_def sqsKeys_def sqs_connected sqsEnv_def)
  have tk: "targetKeys ?b = sqsDropped # [sqsLast]" by (simp add: sqsKeys_def)
  have g: "getObject sqsEnv (length sqsFetched) = Inl (ErrExternal ''NoSuchKey'')"
    and d: "download sqsEnv (length sqsFetched) = Inl (ErrExternal ''NoSuchKey'')"
    by (simp_all add: sqsEnv_def sqsFetched_def)
  have at: "attempts sqsDropped = 1" by (simp add: sqsDropped_def)
  have cl: "s3 ?b \<noteq> None" "downloader ?b \<noteq> None" by (simp_all add: sqsConnected_def)
  have bk: "objectBucket ?b sqsDropped = ''bkt''" "s3Key sqsDropped = ''in/a''"
    "objectBucket ?a sqsDropped = ''bkt''" "objectBucket ?a sqsLast = ''bkt''"
    "s3Key sqsLast = ''in/c''"
    by (simp_all add: objectBucket_def sqsDropped_def sqsLast_def sqsConnected_def sqsNew_def sqsConf_def)
  have rk: "readKeys ?b = []" by (simp add: sqs_connected)
  from T sqs_reach_read obtain bs where
    A: "Acknowledge None (?a, sqsLog) =
          Some (None, ?a\<lparr> readKeys := [] \<rparr>,
                sqsLog @ (if DeleteObjects (conf ?a)
                          then map (\<lambda>k. DeleteObjectCall (objectBucket ?a k) (s3Key k)) (readKeys ?a)
                          else [])
                  @ map (DeleteMessageBatchCall (SQSURL (conf ?a))) bs)"
    and B: "concat bs = List.map_filter sqsHandle (readKeys ?a)"
    and C: "\<forall>b \<in> set bs. b \<noteq> [] \<and> length b \<le> 10"
    by blast
  from B have "concat bs = [sqsHandle1]"
    by (simp add: sqsKeys_def sqsDropped_def sqsLast_def List.map_filter_def)
  with C have bs: "bs = [[sqsHandle1]]" by (intro concat_single) auto
  have dels: "(if DeleteObjects (conf ?a)
               then map (\<lambda>k. DeleteObjectCall (objectBucket ?a k) (s3Key k)) (readKeys ?a)
               else [])
              = [DeleteObjectCall ''bkt'' ''in/a'', DeleteObjectCall ''bkt'' ''in/c'']"
    by (simp add: objectBucket_def sqsKeys_def sqsDropped_def sqsLast_def sqsConnected_def
          sqsNew_def sqsConf_def)
  have url: "SQSURL (conf ?a) = ''queue''" by (simp add: sqs_connected)
  have upd: "?a\<lparr> readKeys := [] \<rparr> = sqsConnected\<lparr> readKeys := [] \<rparr>" by simp
  from A have ack: "Acknowledge None (?a, sqsLog) =
     Some (None, sqsConnected\<lparr> readKeys := [] \<rparr>,
           sqsLog @ [DeleteObjectCall ''bkt'' ''in/a'', DeleteObjectCall ''bkt'' ''in/c'',
                     DeleteMessageBatchCall ''queue'' [sqsHandle1]])"
    unfolding bs dels url upd by simp
  from T on tk g at cl(1) have l1: "readLoop sqsEnv ?b sqsFetched [] =
     readLoop sqsEnv (?b\<lparr> targetKeys := [sqsLast], readKeys := readKeys ?b @ [sqsDropped] \<rparr>)
       (sqsFetched @ [GetObjectCall (objectBucket ?b sqsDropped) (s3Key sqsDropped)]) []"
    by blast
  from T on tk d at cl(2) have l2: "readFromMgrLoop sqsEnv ?b sqsFetched [] =
     readFromMgrLoop sqsEnv (?b\<lparr> targetKeys := [sqsLast], readKeys := readKeys ?b @ [sqsDropped] \<rparr>)
       (sqsFetched @ [DownloadCall (objectBucket ?b sqsDropped) (s3Key sqsDropped)]) []"
    by blast
  from l1 have l1': "readLoop sqsEnv ?b sqsFetched [] =
     readLoop sqsEnv (sqsConnected\<lparr> targetKeys := [sqsLast], readKeys := [sqsDropped] \<rparr>)
       (sqsFetched @ [GetObjectCall ''bkt'' ''in/a'']) []"
    by (simp add: bk rk)
  from l2 have l2': "readFromMgrLoop sqsEnv ?b sqsFetched [] =
     readFromMgrLoop sqsEnv (sqsConnected\<lparr> targetKeys := [sqsLast], readKeys := [sqsDropped] \<rparr>)
       (sqsFetched @ [DownloadCall ''bkt'' ''in/a'']) []"
    by (simp add: bk rk)
  from sqs_reach_read ack on g d at l1' l2' show ?thesis by blast
qed

text \<open>
  C3. \<open>Read\<close> returns \<open>ErrNotConnected\<close> whenever the session is nil. On a connected reader
  with no SQS URL configured and no target key left it returns \<open>ErrTypeClosed\<close>. On a
  connected reader with an SQS URL and no target key left, when the receive round
  succeeds and yields no target key, it returns \<open>ErrTimeout\<close>; in all three cases no
  message is returned and the reader is unchanged.
\<close>

theorem Read_typed_errors:
  "(session a = None \<longrightarrow> Read e (a, cs) = Some (Inl ErrNotConnected, a, cs)) \<and>
   (reachable (a, cs) \<longrightarrow> session a \<noteq> None \<longrightarrow> SQSURL (conf a) = [] \<longrightarrow> targetKeys a = [] \<longrightarrow>
      Read e (a, cs) = Some (Inl ErrTypeClosed, a, cs)) \<and>
   (reachable (a, cs) \<longrightarrow> session a \<noteq> None \<longrightarrow> SQSURL (conf a) \<noteq> [] \<longrightarrow> targetKeys a = [] \<longrightarrow>
      receiveMessage e (length cs) = Inr msgs \<longrightarrow>
      targetKeys (fst (fold (handleSQSMessage e) msgs (a, []))) = [] \<longrightarrow>
      (\<exists>cs'. Read e (a, cs) = Some (Inl ErrTimeout, a, cs')))"
proof (intro conjI impI)
  assume "session a = None"
  then show "Read e (a, cs) = Some (Inl ErrNotConnected, a, cs)" by (rule Read_not_connected)
next
  assume r: "reachable (a, cs)" and s: "session a \<noteq> None" "SQSURL (conf a) = []" "targetKeys a = []"
  from reachable_clientsReady[OF r] s have "sqs a = None" by (auto simp: clientsReady_def)
  with s show "Read e (a, cs) = Some (Inl ErrTypeClosed, a, cs)"
    by (cases "readMethod a") (auto simp: Read_def read_def readFromMgr_def fetchTargets_def)
next
  assume r: "reachable (a, cs)" and s: "session a \<noteq> None" "SQSURL (conf a) \<noteq> []" "targetKeys a = []"
    and m: "receiveMessage e (length cs) = Inr msgs"
       "targetKeys (fst (fold (handleSQSMessage e) msgs (a, []))) = []"
  from reachable_clientsReady[OF r] s have q: "sqs a \<noteq> None" by (auto simp: clientsReady_def)
  from readSQSEvents_timeout[OF q m(1) s(3) m(2)] obtain cs' where
    "readSQSEvents e (a, cs) = Some (Some ErrTimeout, a, cs')" by blast
  with s q have "Read e (a, cs) = Some (Inl ErrTimeout, a, cs')"
    by (cases "readMethod a") (auto simp: Read_def read_def readFromMgr_def fetchTargets_def)
  then show "\<exists>cs'. Read e (a, cs) = Some (Inl ErrTimeout, a, cs')" by blast
qed

theorem Read_typed_errors_witness:
  "session sqsNew = None \<and>
   Read sqsEnv (sqsNew, []) = Some (Inl ErrNotConnected, sqsNew, []) \<and>
   reachable (listConnected\<lparr> targetKeys := [], readKeys := [listKey] \<rparr>,
              listLog @ [GetObjectCall ''bkt'' ''k1'']) \<and>
   Read listEnv (listConnected\<lparr> targetKeys := [], readKeys := [listKey] \<rparr>,
                 listLog @ [GetObjectCall ''bkt'' ''k1'']) =
     Some (Inl ErrTypeClosed, listConnected\<lparr> targetKeys := [], readKeys := [listKey] \<rparr>,
           listLog @ [GetObjectCall ''bkt'' ''k1'']) \<and>
   reachable (sqsConnected, [GetSessionCall]) \<and>
   receiveMessage idleEnv (length [GetSessionCall]) = Inr [] \<and>
   (\<exists>cs'. Read idleEnv (sqsConnected, [GetSessionCall]) = Some (Inl ErrTimeout, sqsConnected, cs'))"
proof -
  let ?d = "listConnected\<lparr> targetKeys := [], readKeys := [listKey] \<rparr>"
  let ?dl = "listLog @ [GetObjectCall ''bkt'' ''k1'']"
  have n: "session sqsNew = None" by (simp add: sqsNew_def)
  from Read_typed_errors [of sqsNew sqsEnv "[]"] n
  have a: "Read sqsEnv (sqsNew, []) = Some (Inl ErrNotConnected, sqsNew, [])" by blast
  have ld: "session ?d \<noteq> None" "SQSURL (conf ?d) = []" "targetKeys ?d = []"
    by (simp_all add: list_connected)
  from Read_typed_errors [of ?d listEnv ?dl] list_reach_read ld
  have b: "Read listEnv (?d, ?dl) = Some (Inl ErrTypeClosed, ?d, ?dl)" by blast
  have sc: "session sqsConnected \<noteq> None" "SQSURL (conf sqsConnected) \<noteq> []"
    "targetKeys sqsConnected = []"
    by (simp_all add: sqs_connected)
  have rm: "receiveMessage idleEnv (length [GetSessionCall]) = Inr []"
    by (simp add: idleEnv_def)
  have f: "targetKeys (fst (fold (handleSQSMessage idleEnv) [] (sqsConnected, []))) = []"
    by (simp add: sqs_connected)
  from Read_typed_errors [of sqsConnected idleEnv "[GetSessionCall]" "[]"]
    sqs_reach_connected sc rm f
  have c: "\<exists>cs'. Read idleEnv (sqsConnected, [GetSessionCall]) = Some (Inl ErrTimeout, sqsConnected, cs')"
    by blast
  from n a list_reach_read b sqs_reach_connected rm c show ?thesis by blast
qed

text \<open>
  C4. \<open>NewAmazonS3\<close> returns an error, and no reader, whenever \<open>MaxBatchCount\<close> is below
  one; and every message that \<open>Read\<close> returns on a reader built by it has at most
  \<open>MaxBatchCount\<close> parts.
\<close>

theorem Read_batch_bound:
  "(MaxBatchCount c < 1 \<longrightarrow> (\<exists>err. NewAmazonS3 e c = Inl err)) \<and>
   (reachable (a, cs) \<longrightarrow> Read e' (a, cs) = Some (Inr msg, a', cs') \<longrightarrow>
      int (length msg) \<le> MaxBatchCount (conf a))"
proof (intro conjI impI)
  assume "MaxBatchCount c < 1"
  then show "\<exists>err. NewAmazonS3 e c = Inl err"
    by (auto simp: NewAmazonS3_def Let_def split: sum.splits)
next
  assume r: "reachable (a, cs)" and m: "Read e' (a, cs) = Some (Inr msg, a', cs')"
  from reachable_clientsReady[OF r] have "0 \<le> MaxBatchCount (conf a)"
    by (simp add: clientsReady_def)
  from Read_bound[OF this m] show "int (length msg) \<le> MaxBatchCount (conf a)" .
qed

theorem Read_batch_bound_witness:
  "MaxBatchCount (sqsConf\<lparr> MaxBatchCount := 0 \<rparr>) < 1 \<and>
   (\<exists>err. NewAmazonS3 sqsEnv (sqsConf\<lparr> MaxBatchCount := 0 \<rparr>) = Inl err) \<and>
   reachable (sqsConnected\<lparr> targetKeys := sqsKeys \<rparr>, sqsLog) \<and>
   Read sqsEnv (sqsConnected\<lparr> targetKeys := sqsKeys \<rparr>, sqsLog) =
     Some (Inr [sqsPart ''in/a'', sqsPart ''in/c''], sqsConnected\<lparr> readKeys := sqsKeys \<rparr>,
           sqsLog @ [GetObjectCall ''bkt'' ''in/a'', GetObjectCall ''bkt'' ''in/c'']) \<and>
   int (length [sqsPart ''in/a'', sqsPart ''in/c'']) \<le> MaxBatchCount (conf (sqsConnected\<lparr> targetKeys := sqsKeys \<rparr>))"
proof -
  let ?b = "sqsConnected\<lparr> targetKeys := sqsKeys \<rparr>"
  note T = Read_batch_bound [of "sqsConf\<lparr> MaxBatchCount := 0 \<rparr>" sqsEnv ?b sqsLog sqsEnv
      "[sqsPart ''in/a'', sqsPart ''in/c'']" "sqsConnected\<lparr> readKeys := sqsKeys \<rparr>"
      "sqsLog @ [GetObjectCall ''bkt'' ''in/a'', GetObjectCall ''bkt'' ''in/c'']"]
  have z: "MaxBatchCount (sqsConf\<lparr> MaxBatchCount := 0 \<rparr>) < 1" by simp
  have "Acknowledge (Some ErrTimeout) (sqsConnected\<lparr> readKeys := sqsKeys \<rparr>, sqsLog) =
          Some (None, ?b, sqsLog)"
    by (simp add: Acknowledge_def sqsConnected_def sqsNew_def)
  from reach_acknowledge[OF sqs_reach_read this] have r: "reachable (?b, sqsLog)" .
  from T z have e: "\<exists>err. NewAmazonS3 sqsEnv (sqsConf\<lparr> MaxBatchCount := 0 \<rparr>) = Inl err" by blast
  from T r sqs_reread
  have le: "int (length [sqsPart ''in/a'', sqsPart ''in/c'']) \<le> MaxBatchCount (conf ?b)" by blast
  from z e r sqs_reread le show ?thesis by blast
qed

text \<open>
  C9. \<open>Read\<close> can return a message with no part and a nil error. A reader built by
  \<open>NewAmazonS3\<close> with one retry and connected to a listed bucket holding one key, whose
  download fails, pops that key inside the batching loop, leaves the loop with no
  target key and an empty message, and returns it as a success.
\<close>

theorem Read_empty_message:
  "NewAmazonS3 listEnv listConf = Inr listNew \<and>
   Connect listEnv (listNew, []) = (None, listConnected, listLog) \<and>
   targetKeys listConnected = [listKey] \<and>
   getObject listEnv (length listLog) = Inl (ErrExternal ''NoSuchKey'') \<and>
   Read listEnv (listConnected, listLog) =
     Some (Inr [], listConnected\<lparr> targetKeys := [], readKeys := [listKey] \<rparr>,
           listLog @ [GetObjectCall ''bkt'' ''k1''])"
proof -
  have "getObject listEnv (length listLog) = Inl (ErrExternal ''NoSuchKey'')"
    by (simp add: listEnv_def)
  with list_new list_connect list_connected(3) list_read show ?thesis by blast
qed

theorem Read_empty_message_witness:
  "\<exists>e st st'. reachable st \<and> Read e st = Some (Inr [], st')"
proof -
  from Read_empty_message have n: "NewAmazonS3 listEnv listConf = Inr listNew"
    and c: "Connect listEnv (listNew, []) = (None, listConnected, listLog)"
    and r: "Read listEnv (listConnected, listLog) =
     Some (Inr [], listConnected\<lparr> targetKeys := [], readKeys := [listKey] \<rparr>,
           listLog @ [GetObjectCall ''bkt'' ''k1''])"
    by blast+
  from reach_connect[OF reach_new[OF n] c] r show ?thesis by blast
qed

text \<open>
  C6. \<open>ProcessMessage\<close> of the decompress processor returns no message and the success
  response exactly when no part is kept, which is when every part is a target that fails
  to decompress; otherwise it returns one message, the kept parts, and a nil response.
  The kept parts are the parts that are no target, unchanged, and the decompressed
  targets, in the order of the message; targets that fail to decompress are removed.
\<close>

theorem ProcessMessage_drops_or_forwards:
  "fst (ProcessMessage d msg) = (if keptParts d msg = [] then [] else [keptParts d msg]) \<and>
   fst (snd (ProcessMessage d msg)) =
     (if keptParts d msg = [] then Some (SimpleResponse None) else None) \<and>
   (keptParts d msg = [] \<longleftrightarrow>
      (\<forall>i < length msg. isTargetPart d (length msg) i \<and> isl (decomp d (msg ! i))))"
  using ProcessMessage_kept[of d msg] keptParts_empty[of d msg] by blast

theorem ProcessMessage_drops_or_forwards_witness:
  "fst (ProcessMessage gzDemo [''gz'', ''raw'', ''junk'']) = [[''plain'', ''raw'']] \<and>
   fst (snd (ProcessMessage gzDemo [''gz'', ''raw'', ''junk''])) = None \<and>
   fst (ProcessMessage gzDemo [''junk'']) = [] \<and>
   fst (snd (ProcessMessage gzDemo [''junk''])) = Some (SimpleResponse None) \<and>
   isTargetPart gzDemo 1 0 \<and> isl (decomp gzDemo ''junk'')"
proof -
  have t: "isTargetPart gzDemo 1 0" "isl (decomp gzDemo ''junk'')"
    by (simp_all add: isTargetPart_def gzDemo_def)
  from ProcessMessage_drops_or_forwards [of gzDemo "[''gz'', ''raw'', ''junk'']"]
    ProcessMessage_drops_or_forwards [of gzDemo "[''junk'']"] t
  show ?thesis by (simp add: gz_kept)
qed

subsection \<open>The SQS handle of a list event\<close>

text \<open>Claim C10. When the body of one SQS event resolves to a list of which \<open>n > 1\<close> keys match
  the prefix, handling the event appends exactly those keys, in order, and the delete handle of
  the message is carried by the last of them only: the other \<open>n - 1\<close> keys carry no handle.
  Consequently, in every reachable state, \<open>Acknowledge(nil)\<close> sends a handle in a
  \<open>DeleteMessageBatch\<close> request iff a key of the acknowledged batch carries it, that is, iff the
  batch contains that last key. When the body resolves to a single key matching the prefix, the
  key is appended with the handle and with the first extracted bucket name (the empty name, which
  selects the configured bucket, when none was extracted); the other bucket names are not used.\<close>

theorem sqs_handle_on_last_key:
  "(Body m = Some body \<longrightarrow> gabsParseJSON e body = Inr g0 \<longrightarrow> openEnvelope e a g0 = Some gObj \<longrightarrow>
    gabsSearch e gObj (sqsBodyPath a) = JArray t \<longrightarrow>
    1 < length (filter (prefix (Prefix (conf a))) (digStrsFromSlices t)) \<longrightarrow>
      (\<exists>new. handleSQSMessage e m (a, d) = (a\<lparr> targetKeys := targetKeys a @ new \<rparr>, d) \<and>
             map s3Key new = filter (prefix (Prefix (conf a))) (digStrsFromSlices t) \<and>
             map sqsHandle new =
               replicate (length (filter (prefix (Prefix (conf a))) (digStrsFromSlices t)) - 1) None
               @ [Some \<lparr> Id = MessageId m, ReceiptHandle = ReceiptHandleM m \<rparr>])) \<and>
   (reachable (b, cs) \<longrightarrow> Acknowledge None (b, cs) = Some (r, b', cs') \<longrightarrow>
      ((\<exists>es. DeleteMessageBatchCall (SQSURL (conf b)) es \<in> set (drop (length cs) cs') \<and> h \<in> set es)
       \<longleftrightarrow> (\<exists>k \<in> set (readKeys b). sqsHandle k = Some h))) \<and>
   (Body m = Some body \<longrightarrow> gabsParseJSON e body = Inr g0 \<longrightarrow> openEnvelope e a g0 = Some gObj \<longrightarrow>
    gabsSearch e gObj (sqsBodyPath a) = JString s \<longrightarrow> prefix (Prefix (conf a)) s \<longrightarrow>
      handleSQSMessage e m (a, d) =
        (a\<lparr> targetKeys := targetKeys a @
               [\<lparr> s3Key = s,
                  s3Bucket = (case eventBuckets e a gObj of [] \<Rightarrow> [] | bucket # others \<Rightarrow> bucket),
                  attempts = Retries (conf a),
                  sqsHandle = Some \<lparr> Id = MessageId m, ReceiptHandle = ReceiptHandleM m \<rparr> \<rparr>] \<rparr>, d))"
proof (intro conjI impI)
  let ?h = "\<lparr> Id = MessageId m, ReceiptHandle = ReceiptHandleM m \<rparr>"
  let ?ts = "filter (prefix (Prefix (conf a))) (digStrsFromSlices t)"
  assume p: "Body m = Some body" "gabsParseJSON e body = Inr g0" "openEnvelope e a g0 = Some gObj"
    and l: "gabsSearch e gObj (sqsBodyPath a) = JArray t" and n: "1 < length ?ts"
  let ?new = "map (eventKey a (eventBuckets e a gObj) ?h (length ?ts)) (enumerate 0 ?ts)"
  from n have ne: "?ts \<noteq> []" by auto
  have "handleSQSMessage e m (a, d) = (a\<lparr> targetKeys := targetKeys a @ ?new \<rparr>, d)"
    unfolding handleSQSMessage_parsed[OF p] appendTargets_array[OF l] using ne by (simp add: Let_def)
  moreover have "map s3Key ?new = ?ts" by (rule keys_of_event)
  moreover from n have "map sqsHandle ?new = replicate (length ?ts - 1) None @ [Some ?h]"
    by (intro handles_of_event) auto
  ultimately show "\<exists>new. handleSQSMessage e m (a, d) = (a\<lparr> targetKeys := targetKeys a @ new \<rparr>, d) \<and>
             map s3Key new = ?ts \<and>
             map sqsHandle new = replicate (length ?ts - 1) None @ [Some ?h]"
    by blast
next
  assume "reachable (b, cs)" and A: "Acknowledge None (b, cs) = Some (r, b', cs')"
  from reachable_clientsReady[OF this(1)] have "clientsReady b" by simp
  from Acknowledge_nil_entries[OF this A]
  show "(\<exists>es. DeleteMessageBatchCall (SQSURL (conf b)) es \<in> set (drop (length cs) cs') \<and> h \<in> set es)
       \<longleftrightarrow> (\<exists>k \<in> set (readKeys b). sqsHandle k = Some h)" .
next
  assume p: "Body m = Some body" "gabsParseJSON e body = Inr g0" "openEnvelope e a g0 = Some gObj"
    and l: "gabsSearch e gObj (sqsBodyPath a) = JString s" and pre: "prefix (Prefix (conf a)) s"
  show "handleSQSMessage e m (a, d) =
        (a\<lparr> targetKeys := targetKeys a @
               [\<lparr> s3Key = s,
                  s3Bucket = (case eventBuckets e a gObj of [] \<Rightarrow> [] | bucket # others \<Rightarrow> bucket),
                  attempts = Retries (conf a),
                  sqsHandle = Some \<lparr> Id = MessageId m, ReceiptHandle = ReceiptHandleM m \<rparr> \<rparr>] \<rparr>, d)"
    unfolding handleSQSMessage_parsed[OF p] appendTargets_string[OF l] using pre
    by (cases "eventBuckets e a gObj") simp_all
qed

theorem sqs_handle_on_last_key_witness:
  "(\<exists>new. handleSQSMessage sqsEnv sqsMessage1 (sqsConnected, []) =
            (sqsConnected\<lparr> targetKeys := new \<rparr>, []) \<and>
          map s3Key new = [''in/a'', ''in/c''] \<and>
          map sqsHandle new = [None, Some sqsHandle1]) \<and>
   reachable (sqsConnected\<lparr> readKeys := sqsKeys \<rparr>, sqsLog) \<and>
   (\<exists>k \<in> set (readKeys (sqsConnected\<lparr> readKeys := sqsKeys \<rparr>)). sqsHandle k = Some sqsHandle1) \<and>
   (\<exists>es. DeleteMessageBatchCall ''queue'' es \<in>
            set (drop (length sqsLog)
                   (sqsLog @ [DeleteObjectCall ''bkt'' ''in/a'', DeleteObjectCall ''bkt'' ''in/c'',
                              DeleteMessageBatchCall ''queue'' [sqsHandle1]])) \<and>
         sqsHandle1 \<in> set es) \<and>
   eventBuckets singleEnv sqsConnected (JObject []) = [''b1'', ''b2''] \<and>
   handleSQSMessage singleEnv sqsMessage1 (sqsConnected, []) =
     (sqsConnected\<lparr> targetKeys := [\<lparr> s3Key = ''in/x'', s3Bucket = ''b1'', attempts = 1,
                                       sqsHandle = Some sqsHandle1 \<rparr>] \<rparr>, [])"
proof -
  let ?a = "sqsConnected\<lparr> readKeys := sqsKeys \<rparr>"
  let ?t = "[JString ''in/a'', JString ''out/b'', JString ''in/c'']"
  let ?log = "sqsLog @ [DeleteObjectCall ''bkt'' ''in/a'', DeleteObjectCall ''bkt'' ''in/c'',
                        DeleteMessageBatchCall ''queue'' [sqsHandle1]]"
  note T1 = sqs_handle_on_last_key [of sqsMessage1 "''event''" sqsEnv "JObject []" sqsConnected
      "JObject []" ?t "[]" ?a sqsLog None "sqsConnected\<lparr> readKeys := [] \<rparr>" ?log sqsHandle1]
  note T2 = sqs_handle_on_last_key [of sqsMessage1 "''event''" singleEnv "JObject []" sqsConnected
      "JObject []" _ "[]" _ _ _ _ _ _ "''in/x''"]
  have s1: "gabsSearch sqsEnv (JObject []) (sqsBodyPath sqsConnected) = JArray ?t"
    by (simp add: sqsEnv_def sqsConnected_def sqsNew_def)
  have f1: "filter (prefix (Prefix (conf sqsConnected))) (digStrsFromSlices ?t) = [''in/a'', ''in/c'']"
    by (simp add: sqsConnected_def sqsNew_def sqsConf_def)
  have c: "targetKeys sqsConnected = []" "Retries (conf sqsConnected) = 1"
    "SQSURL (conf ?a) = ''queue''"
    by (simp_all add: sqsConnected_def sqsNew_def sqsConf_def)
  from T1 sqs_parsed(1,2,4) s1 f1
  have "\<exists>new. handleSQSMessage sqsEnv sqsMessage1 (sqsConnected, []) =
            (sqsConnected\<lparr> targetKeys := targetKeys sqsConnected @ new \<rparr>, []) \<and>
          map s3Key new = [''in/a'', ''in/c''] \<and>
          map sqsHandle new = replicate (length [''in/a'', ''in/c''] - 1) None
             @ [Some \<lparr> Id = MessageId sqsMessage1, ReceiptHandle = ReceiptHandleM sqsMessage1 \<rparr>]"
    by simp
  then have A: "\<exists>new. handleSQSMessage sqsEnv sqsMessage1 (sqsConnected, []) =
            (sqsConnected\<lparr> targetKeys := new \<rparr>, []) \<and>
          map s3Key new = [''in/a'', ''in/c''] \<and>
          map sqsHandle new = [None, Some sqsHandle1]"
    by (simp add: c sqs_parsed(6))
  have K: "\<exists>k \<in> set (readKeys ?a). sqsHandle k = Some sqsHandle1"
    by (simp add: sqsKeys_def sqsLast_def)
  from T1 sqs_reach_read sqs_ack K
  have B: "\<exists>es. DeleteMessageBatchCall ''queue'' es \<in> set (drop (length sqsLog) ?log) \<and>
         sqsHandle1 \<in> set es"
    unfolding c(3) by blast
  have s2: "gabsSearch singleEnv (JObject []) (sqsBodyPath sqsConnected) = JString ''in/x''"
    by (simp add: singleEnv_def sqsConnected_def sqsNew_def)
  have p2: "prefix (Prefix (conf sqsConnected)) ''in/x''"
    by (simp add: sqsConnected_def sqsNew_def sqsConf_def)
  have eb: "eventBuckets singleEnv sqsConnected (JObject []) = [''b1'', ''b2'']"
    by (simp add: eventBuckets_def singleEnv_def sqsConnected_def sqsNew_def)
  from T2 sqs_parsed(1,3,5) s2 p2
  have "handleSQSMessage singleEnv sqsMessage1 (sqsConnected, []) =
        (sqsConnected\<lparr> targetKeys := targetKeys sqsConnected @
               [\<lparr> s3Key = ''in/x'',
                  s3Bucket = (case eventBuckets singleEnv sqsConnected (JObject []) of
                                [] \<Rightarrow> [] | bucket # others \<Rightarrow> bucket),
                  attempts = Retries (conf sqsConnected),
                  sqsHandle = Some \<lparr> Id = MessageId sqsMessage1,
                                     ReceiptHandle = ReceiptHandleM sqsMessage1 \<rparr> \<rparr>] \<rparr>, [])"
    by blast
  then have C: "handleSQSMessage singleEnv sqsMessage1 (sqsConnected, []) =
     (sqsConnected\<lparr> targetKeys := [\<lparr> s3Key = ''in/x'', s3Bucket = ''b1'', attempts = 1,
                                       sqsHandle = Some sqsHandle1 \<rparr>] \<rparr>, [])"
    by (simp add: c eb sqs_parsed(6))
  from A sqs_reach_read K B eb C show ?thesis by blast
qed

subsection \<open>The redis list and nsq inputs\<close>

text \<open>Claim C8. The \<open>redis_list\<close> constructor hands \<open>NewReader\<close> a preserver around the
  reader that \<open>reader.NewRedisList\<close> returned. For a preserved reader, when \<open>Read\<close> has returned
  a message \<open>m\<close> and \<open>Acknowledge\<close> is then called with a non-nil error, the acknowledgement
  returns nil and leaves the low-level reader as it was, and the next \<open>Read\<close> returns \<open>m\<close> again and
  ends in the state the first \<open>Read\<close> ended in, so the low-level reader is not polled. The \<open>nsq\<close>
  constructor hands \<open>NewReader\<close> the reader that \<open>reader.NewNSQ\<close> returned, unwrapped: a failed
  acknowledgement goes to that reader and the next \<open>Read\<close> returns what that reader returns.
  The preserver is modelled from the spec.\<close>

theorem redis_list_preserved_nsq_direct:
  "(readerNewRedisList lib (RedisList c) = Inr u \<longrightarrow>
      NewRedisList lib c = NewReader lib ''redis_list'' (Preserved (NewPreserver u))) \<and>
   (typeRead lib (Preserved p) = (Inr m, t1) \<longrightarrow>
      (\<exists>t2. typeAcknowledge lib (Some err) t1 = (None, t2) \<and>
            lowLevel t2 = lowLevel t1 \<and>
            typeRead lib t2 = (Inr m, t1))) \<and>
   (readerNewNSQ lib (NSQ c) = Inr n \<longrightarrow>
      NewNSQ lib c = NewReader lib ''nsq'' (Direct n)) \<and>
   (typeAcknowledge lib (Some err) (Direct n1) = (r, t2) \<longrightarrow>
      (r, lowLevel t2) = lowAcknowledge lib (Some err) n1 \<and>
      fst (typeRead lib t2) = fst (lowRead lib (lowLevel t2)))"
proof (intro conjI impI)
  assume "readerNewRedisList lib (RedisList c) = Inr u"
  then show "NewRedisList lib c = NewReader lib ''redis_list'' (Preserved (NewPreserver u))"
    by (simp add: NewRedisList_def)
next
  assume "readerNewNSQ lib (NSQ c) = Inr n"
  then show "NewNSQ lib c = NewReader lib ''nsq'' (Direct n)"
    by (simp add: NewNSQ_def)
next
  assume "typeRead lib (Preserved p) = (Inr m, t1)"
  then obtain p1 where r: "preserverRead lib p = (Inr m, p1)" and t1: "t1 = Preserved p1"
    by (auto split: prod.splits)
  let ?p2 = "p1\<lparr> retained := Some m, unAcked := None \<rparr>"
  from preserver_reemits(1)[OF r, of err] preserver_reemits(2)[OF r]
  have "typeAcknowledge lib (Some err) t1 = (None, Preserved ?p2)"
    and "lowLevel (Preserved ?p2) = lowLevel t1"
    and "typeRead lib (Preserved ?p2) = (Inr m, t1)"
    by (simp_all add: t1)
  then show "\<exists>t2. typeAcknowledge lib (Some err) t1 = (None, t2) \<and>
            lowLevel t2 = lowLevel t1 \<and> typeRead lib t2 = (Inr m, t1)"
    by blast
next
  assume a: "typeAcknowledge lib (Some err) (Direct n1) = (r, t2)"
  then show "(r, lowLevel t2) = lowAcknowledge lib (Some err) n1"
    by (auto split: prod.splits)
  from a show "fst (typeRead lib t2) = fst (lowRead lib (lowLevel t2))"
    by (auto split: prod.splits)
qed

theorem redis_list_preserved_nsq_direct_witness:
  "NewRedisList queueLib queueConf =
     Inr (''redis_list'', Preserved (NewPreserver [[''r1''], [''r2'']])) \<and>
   typeRead queueLib (Preserved (NewPreserver [[''r1''], [''r2'']])) =
     (Inr [''r1''], Preserved \<lparr> wrapped = [[''r2'']], unAcked = Some [''r1''], retained = None \<rparr>) \<and>
   (\<exists>t2. typeAcknowledge queueLib (Some ErrTimeout)
            (Preserved \<lparr> wrapped = [[''r2'']], unAcked = Some [''r1''], retained = None \<rparr>) = (None, t2) \<and>
         lowLevel t2 = [[''r2'']] \<and>
         typeRead queueLib t2 =
           (Inr [''r1''], Preserved \<lparr> wrapped = [[''r2'']], unAcked = Some [''r1''], retained = None \<rparr>)) \<and>
   NewNSQ queueLib queueConf = Inr (''nsq'', Direct [[''n1''], [''n2'']]) \<and>
   typeRead queueLib (Direct [[''n1''], [''n2'']]) = (Inr [''n1''], Direct [[''n2'']]) \<and>
   typeAcknowledge queueLib (Some ErrTimeout) (Direct [[''n2'']]) = (None, Direct [[''n2'']]) \<and>
   fst (typeRead queueLib (Direct [[''n2'']])) = Inr [''n2'']"
proof -
  let ?p1 = "\<lparr> wrapped = [[''r2'']], unAcked = Some [''r1''], retained = None \<rparr> :: raw_message list Preserver"
  note T = redis_list_preserved_nsq_direct [of queueLib queueConf "[[''r1''], [''r2'']]"
      "NewPreserver [[''r1''], [''r2'']]" "[''r1'']" "Preserved ?p1" ErrTimeout
      "[[''n1''], [''n2'']]" "[[''n2'']]" None "Direct [[''n2'']]"]
  have nr: "NewReader queueLib = (\<lambda>name t. Inr (name, t))" by (simp add: queueLib_def)
  have c: "readerNewRedisList queueLib (RedisList queueConf) = Inr [[''r1''], [''r2'']]"
    "readerNewNSQ queueLib (NSQ queueConf) = Inr [[''n1''], [''n2'']]"
    by (simp_all add: queueLib_def queueConf_def)
  have rd: "typeRead queueLib (Preserved (NewPreserver [[''r1''], [''r2'']])) = (Inr [''r1''], Preserved ?p1)"
    by (simp add: preserverRead_def NewPreserver_def queueLib_def)
  have nd: "typeRead queueLib (Direct [[''n1''], [''n2'']]) = (Inr [''n1''], Direct [[''n2'']])"
    by (simp add: queueLib_def)
  have na: "typeAcknowledge queueLib (Some ErrTimeout) (Direct [[''n2'']]) = (None, Direct [[''n2'']])"
    by (simp add: queueLib_def)
  have lr: "fst (lowRead queueLib [[''n2'']]) = Inr [''n2'']" by (simp add: queueLib_def)
  from T c have A: "NewRedisList queueLib queueConf =
     Inr (''redis_list'', Preserved (NewPreserver [[''r1''], [''r2'']]))"
    and D: "NewNSQ queueLib queueConf = Inr (''nsq'', Direct [[''n1''], [''n2'']])"
    by (simp_all add: nr)
  from T rd have B: "\<exists>t2. typeAcknowledge queueLib (Some ErrTimeout) (Preserved ?p1) = (None, t2) \<and>
         lowLevel t2 = [[''r2'']] \<and> typeRead queueLib t2 = (Inr [''r1''], Preserved ?p1)"
    by simp
  from T na lr have E: "fst (typeRead queueLib (Direct [[''n2'']])) = Inr [''n2'']"
    by simp
  from A rd B D nd na E show ?thesis by blast
qed

end
